theory Spec2Isabelle
  imports Main "HOL-Library.Sublist"
begin

section \<open>The environment of \<open>my_copy\<close>: a small model of the system calls it uses\<close>

text \<open>
  \<open>my_copy.c\<close> is one \<open>main\<close> function built from the system calls \<open>access\<close>, \<open>open\<close>,
  \<open>read\<close>, \<open>write\<close> and \<open>close\<close>. The program text is embedded below as functions on a
  record \<open>world\<close>; the system calls are modelled here.

  Bytes are \<open>char\<close> (8 bits), byte sequences are \<open>string\<close>. A path names its own file: the
  model has no links, so two different paths never share content, and equal paths name the
  same file. Nothing but the program changes the files while it runs.
\<close>

type_synonym path = string

text \<open>Outcome of one \<open>read\<close> of a single byte on standard input, as the kernel decides it.\<close>

datatype rd = RdErr | RdEof | RdByte char

text \<open>
  What the kernel does with one \<open>read\<close> or \<open>write\<close> on a file descriptor: fail, or
  transfer at most the given number of bytes.
\<close>

datatype io = IoErr | IoMax nat

datatype oflag = O_RDONLY | O_WRONLY_CREAT_TRUNC

text \<open>The log of system calls, each with what it returned.\<close>

datatype event =
    EvAccess path int
  | EvOpen path oflag int
  | EvRead nat nat string int
  | EvWrite nat string int
  | EvClose nat int

record world =
  files :: "path \<rightharpoonup> string"
  fds :: "nat \<rightharpoonup> path \<times> nat"
  next_fd :: nat
  stdin :: "rd list"
  no_read :: "path set"
  no_write :: "path set"
  rd_script :: "io list"
  wr_script :: "io list"
  bad_close :: "nat set"
  trace :: "event list"

text \<open>
  \<^item> \<open>files\<close>: the content of every existing file;
  \<^item> \<open>fds\<close>: the open descriptors of the process, each with its path and file offset;
    \<open>next_fd\<close> is the descriptor the next successful \<open>open\<close> returns;
  \<^item> \<open>stdin\<close>: the outcomes of the coming reads on descriptor 0; when the list is used up
    the stream is at end of file and every read returns 0;
  \<^item> \<open>no_read\<close>, \<open>no_write\<close>: the paths that \<open>open\<close> refuses for reading, and for
    writing or creating;
  \<^item> \<open>rd_script\<close>, \<open>wr_script\<close>: the outcomes of the coming reads and writes on files; when
    a list is used up the call transfers everything asked for;
  \<^item> \<open>bad_close\<close>: the descriptors whose \<open>close\<close> returns -1;
  \<^item> \<open>trace\<close>: the system calls made so far, oldest first.
\<close>

definition STDIN_FILENO :: nat where "STDIN_FILENO = 0"
definition STDOUT_FILENO :: nat where "STDOUT_FILENO = 1"
definition STDERR_FILENO :: nat where "STDERR_FILENO = 2"

definition BUFFER_SIZE :: nat where "BUFFER_SIZE = 4096"

definition log_event :: "event \<Rightarrow> world \<Rightarrow> world" where
  "log_event e w = w\<lparr>trace := trace w @ [e]\<rparr>"

text \<open>\<open>access(path, F_OK)\<close>: 0 when the file exists, -1 otherwise.\<close>

definition sys_access :: "path \<Rightarrow> world \<Rightarrow> int \<times> world" where
  "sys_access p w =
     (let r = (if files w p = None then - 1 else 0)
      in (r, log_event (EvAccess p r) w))"

text \<open>
  \<open>open(path, O_RDONLY)\<close> needs an existing, readable file.
  \<open>open(path, O_WRONLY | O_CREAT | O_TRUNC, 0644)\<close> creates the file or empties it.
  Both return the new descriptor, at offset 0, or -1 and change nothing.
\<close>

definition sys_open :: "path \<Rightarrow> oflag \<Rightarrow> world \<Rightarrow> int \<times> world" where
  "sys_open p fl w =
     (case fl of
        O_RDONLY \<Rightarrow>
          if files w p = None \<or> p \<in> no_read w
          then (- 1, log_event (EvOpen p fl (- 1)) w)
          else (int (next_fd w),
                log_event (EvOpen p fl (int (next_fd w)))
                  (w\<lparr>fds := (fds w)(next_fd w \<mapsto> (p, 0)), next_fd := Suc (next_fd w)\<rparr>))
      | O_WRONLY_CREAT_TRUNC \<Rightarrow>
          if p \<in> no_write w
          then (- 1, log_event (EvOpen p fl (- 1)) w)
          else (int (next_fd w),
                log_event (EvOpen p fl (int (next_fd w)))
                  (w\<lparr>files := (files w)(p \<mapsto> []),
                     fds := (fds w)(next_fd w \<mapsto> (p, 0)), next_fd := Suc (next_fd w)\<rparr>)))"

text \<open>
  \<open>read(fd, buf, count)\<close> returns the value of the call and the bytes it stored at the
  start of \<open>buf\<close>. On descriptor 0 the outcome is the head of \<open>stdin\<close>. On a file it
  delivers bytes from the offset on and advances the offset; with data left it delivers at
  least one byte, and 0 only at end of file.
\<close>

definition sys_read :: "nat \<Rightarrow> nat \<Rightarrow> world \<Rightarrow> int \<times> string \<times> world" where
  "sys_read fd count w =
     (if fd = STDIN_FILENO then
        (case stdin w of
           [] \<Rightarrow> (0, [], log_event (EvRead fd count [] 0) w)
         | RdErr # rest \<Rightarrow> (- 1, [], log_event (EvRead fd count [] (- 1)) (w\<lparr>stdin := rest\<rparr>))
         | RdEof # rest \<Rightarrow> (0, [], log_event (EvRead fd count [] 0) (w\<lparr>stdin := rest\<rparr>))
         | RdByte c # rest \<Rightarrow>
             if count = 0 then (0, [], log_event (EvRead fd count [] 0) w)
             else (1, [c], log_event (EvRead fd count [c] 1) (w\<lparr>stdin := rest\<rparr>)))
      else
        (case fds w fd of
           None \<Rightarrow> (- 1, [], log_event (EvRead fd count [] (- 1)) w)
         | Some (p, off) \<Rightarrow>
             (case files w p of
                None \<Rightarrow> (- 1, [], log_event (EvRead fd count [] (- 1)) w)
              | Some content \<Rightarrow>
                  (case rd_script w of
                     IoErr # rest \<Rightarrow>
                       (- 1, [], log_event (EvRead fd count [] (- 1)) (w\<lparr>rd_script := rest\<rparr>))
                   | IoMax k # rest \<Rightarrow>
                       (let bs = take (max 1 k) (take count (drop off content))
                        in (int (length bs), bs,
                            log_event (EvRead fd count bs (int (length bs)))
                              (w\<lparr>fds := (fds w)(fd \<mapsto> (p, off + length bs)),
                                 rd_script := rest\<rparr>)))
                   | [] \<Rightarrow>
                       (let bs = take count (drop off content)
                        in (int (length bs), bs,
                            log_event (EvRead fd count bs (int (length bs)))
                              (w\<lparr>fds := (fds w)(fd \<mapsto> (p, off + length bs))\<rparr>)))))))"

text \<open>
  \<open>write(fd, buf, count)\<close>, with \<open>buf\<close> the \<open>count\<close> bytes to write. On descriptors 1 and 2
  (a terminal) everything is written. On a file the bytes the kernel accepts replace the
  content from the offset on (a gap before the offset is zero-filled) and the offset
  advances; the call returns how many bytes were written, or -1.
\<close>

definition put_at :: "nat \<Rightarrow> string \<Rightarrow> string \<Rightarrow> string" where
  "put_at off bs content =
     take off (content @ replicate (off - length content) (CHR 0x00)) @ bs
       @ drop (off + length bs) content"

definition sys_write :: "nat \<Rightarrow> string \<Rightarrow> world \<Rightarrow> int \<times> world" where
  "sys_write fd buf w =
     (if fd = STDOUT_FILENO \<or> fd = STDERR_FILENO then
        (int (length buf), log_event (EvWrite fd buf (int (length buf))) w)
      else
        (case fds w fd of
           None \<Rightarrow> (- 1, log_event (EvWrite fd buf (- 1)) w)
         | Some (p, off) \<Rightarrow>
             (case files w p of
                None \<Rightarrow> (- 1, log_event (EvWrite fd buf (- 1)) w)
              | Some content \<Rightarrow>
                  (case wr_script w of
                     IoErr # rest \<Rightarrow>
                       (- 1, log_event (EvWrite fd buf (- 1)) (w\<lparr>wr_script := rest\<rparr>))
                   | IoMax k # rest \<Rightarrow>
                       (let bs = take k buf
                        in (int (length bs),
                            log_event (EvWrite fd buf (int (length bs)))
                              (w\<lparr>files := (files w)(p \<mapsto> put_at off bs content),
                                 fds := (fds w)(fd \<mapsto> (p, off + length bs)),
                                 wr_script := rest\<rparr>)))
                   | [] \<Rightarrow>
                       (int (length buf),
                        log_event (EvWrite fd buf (int (length buf)))
                          (w\<lparr>files := (files w)(p \<mapsto> put_at off buf content),
                             fds := (fds w)(fd \<mapsto> (p, off + length buf))\<rparr>))))))"

text \<open>\<open>close(fd)\<close> releases the descriptor in every case; it returns -1 when told to.\<close>

definition sys_close :: "nat \<Rightarrow> world \<Rightarrow> int \<times> world" where
  "sys_close fd w =
     (let r = (if fds w fd = None \<or> fd \<in> bad_close w then - 1 else 0)
      in (r, log_event (EvClose fd r) (w\<lparr>fds := (fds w)(fd := None)\<rparr>)))"

text \<open>A call whose return value the program throws away.\<close>

definition write_void :: "nat \<Rightarrow> string \<Rightarrow> world \<Rightarrow> world" where
  "write_void fd buf w = snd (sys_write fd buf w)"

definition close_void :: "nat \<Rightarrow> world \<Rightarrow> world" where
  "close_void fd w = snd (sys_close fd w)"

section \<open>The program\<close>

text \<open>
  A C string is modelled by its bytes before the terminating NUL; the end of the list
  stands for the terminator. \<open>string_length\<close> counts up to the first NUL, as the loop of
  the source does. (The source counts in an \<open>int\<close>; a path is far shorter than
  \<open>2^31\<close> bytes.)
\<close>

fun string_length :: "string \<Rightarrow> nat" where
  "string_length [] = 0"
| "string_length (c # str) = (if c = CHR 0x00 then 0 else Suc (string_length str))"

text \<open>\<open>write(fd, str, string_length(str))\<close>\<close>

definition write_str :: "nat \<Rightarrow> string \<Rightarrow> world \<Rightarrow> world" where
  "write_str fd str w = write_void fd (take (string_length str) str) w"

text \<open>The messages: the \<open>char\<close> arrays of the source, without their terminating NUL.\<close>

definition usage :: string where
  "usage = ''Usage: ./my_copy <source_file> <destination_file>'' @ [CHR 0x0A]"

definition prompt1 :: string where
  "prompt1 = ''Destination file '' @ [CHR 0x27]"

definition prompt2 :: string where
  "prompt2 = [CHR 0x27] @ '' already exists. Copying will overwrite it. Continue? (y/n): ''"

definition err_input :: string where
  "err_input = ''Error: Failed to read user input'' @ [CHR 0x0A]"

definition msg_proceed :: string where
  "msg_proceed = ''Proceeding with copy...'' @ [CHR 0x0A]"

definition msg_cancel :: string where
  "msg_cancel = ''Copy cancelled by user.'' @ [CHR 0x0A]"

definition msg_invalid :: string where
  "msg_invalid = ''Invalid input. Please enter '' @ [CHR 0x27] @ ''y'' @ [CHR 0x27]
     @ '' or '' @ [CHR 0x27] @ ''n'' @ [CHR 0x27] @ '': ''"

definition err_open_src :: string where
  "err_open_src = ''Error: Cannot open source file '' @ [CHR 0x27]"

definition err_open_dst :: string where
  "err_open_dst = ''Error: Cannot create destination file '' @ [CHR 0x27]"

definition error2 :: string where
  "error2 = [CHR 0x27, CHR 0x0A]"

definition success3 :: string where
  "success3 = [CHR 0x27, CHR 0x0A]"

definition err_write :: string where
  "err_write = ''Error: Failed to write to destination file'' @ [CHR 0x0A]"

definition err_incomplete :: string where
  "err_incomplete = ''Error: Incomplete write'' @ [CHR 0x0A]"

definition err_read :: string where
  "err_read = ''Error: Failed to read from source file'' @ [CHR 0x0A]"

definition err_close_src :: string where
  "err_close_src = ''Error: Failed to close source file'' @ [CHR 0x0A]"

definition err_close_dst :: string where
  "err_close_dst = ''Error: Failed to close destination file'' @ [CHR 0x0A]"

definition success1 :: string where
  "success1 = ''Success! Copied '' @ [CHR 0x27]"

definition success2 :: string where
  "success2 = [CHR 0x27] @ '' to '' @ [CHR 0x27]"

text \<open>
  One pass through the body of a loop either goes round again, leaves the loop, or
  returns from \<open>main\<close> with an exit status.
\<close>

datatype ('c, 'b) flow = Continue 'c | Break 'b | Return int world

datatype 'b outcome = Finished 'b | Exit int world

subsection \<open>Step 2: the confirmation loop (lines 87 to 126)\<close>

text \<open>
  The loop state is the variable \<open>response\<close> and the world. A read that delivers no byte
  leaves \<open>response\<close> as it was. The value of the second read is thrown away, as in the
  source. Setting \<open>valid_input\<close> ends the loop.
\<close>

definition confirm_body :: "char \<Rightarrow> world \<Rightarrow> (char \<times> world, world) flow" where
  "confirm_body response w =
     (case sys_read STDIN_FILENO 1 w of
        (bytes_read, buf, w1) \<Rightarrow>
          if bytes_read = - 1 then Return 1 (write_void STDERR_FILENO err_input w1)
          else
            (let response = (case buf of [] \<Rightarrow> response | c # _ \<Rightarrow> c);
                 w2 = snd (snd (sys_read STDIN_FILENO 1 w1))
             in if response = CHR ''y'' \<or> response = CHR ''Y''
                then Break (write_void STDOUT_FILENO msg_proceed w2)
                else if response = CHR ''n'' \<or> response = CHR ''N''
                then Return 0 (write_void STDOUT_FILENO msg_cancel w2)
                else Continue (response, write_void STDOUT_FILENO msg_invalid w2)))"

partial_function (option) confirm_loop :: "char \<Rightarrow> world \<Rightarrow> world outcome option" where
  "confirm_loop response w =
     (case confirm_body response w of
        Continue (response', w') \<Rightarrow> confirm_loop response' w'
      | Break w' \<Rightarrow> Some (Finished w')
      | Return status w' \<Rightarrow> Some (Exit status w'))"

declare confirm_loop.simps [code]

subsection \<open>Step 5: the transfer loop (lines 189 to 217)\<close>

definition copy_body :: "nat \<Rightarrow> nat \<Rightarrow> world \<Rightarrow> (world, int \<times> world) flow" where
  "copy_body source_fd dest_fd w =
     (case sys_read source_fd BUFFER_SIZE w of
        (bytes_read, buffer, w1) \<Rightarrow>
          if bytes_read > 0 then
            (case sys_write dest_fd (take (nat bytes_read) buffer) w1 of
               (bytes_written, w2) \<Rightarrow>
                 if bytes_written = - 1 then
                   Return 1 (close_void dest_fd (close_void source_fd
                               (write_void STDERR_FILENO err_write w2)))
                 else if bytes_written \<noteq> bytes_read then
                   Return 1 (close_void dest_fd (close_void source_fd
                               (write_void STDERR_FILENO err_incomplete w2)))
                 else Continue w2)
          else Break (bytes_read, w1))"

partial_function (option) copy_loop ::
  "nat \<Rightarrow> nat \<Rightarrow> world \<Rightarrow> (int \<times> world) outcome option" where
  "copy_loop source_fd dest_fd w =
     (case copy_body source_fd dest_fd w of
        Continue w' \<Rightarrow> copy_loop source_fd dest_fd w'
      | Break b \<Rightarrow> Some (Finished b)
      | Return status w' \<Rightarrow> Some (Exit status w'))"

declare copy_loop.simps [code]

subsection \<open>Steps 6 and 7: after the loop (lines 219 to 258)\<close>

definition close_and_report ::
  "nat \<Rightarrow> nat \<Rightarrow> path \<Rightarrow> path \<Rightarrow> int \<Rightarrow> world \<Rightarrow> int \<times> world" where
  "close_and_report source_fd dest_fd source_file dest_file bytes_read w =
     (if bytes_read = - 1 then
        (1, close_void dest_fd (close_void source_fd
              (write_void STDERR_FILENO err_read w)))
      else
        (case sys_close source_fd w of
           (r1, w1) \<Rightarrow>
             if r1 = - 1 then
               (1, close_void dest_fd (write_void STDERR_FILENO err_close_src w1))
             else
               (case sys_close dest_fd w1 of
                  (r2, w2) \<Rightarrow>
                    if r2 = - 1 then
                      (1, write_void STDERR_FILENO err_close_dst w2)
                    else
                      (0, write_void STDOUT_FILENO success3
                            (write_str STDOUT_FILENO dest_file
                               (write_void STDOUT_FILENO success2
                                  (write_str STDOUT_FILENO source_file
                                     (write_void STDOUT_FILENO success1 w2))))))))"

subsection \<open>Steps 3 to 5: open both files and copy (lines 137 to 217)\<close>

definition copy_file :: "path \<Rightarrow> path \<Rightarrow> world \<Rightarrow> (int \<times> world) option" where
  "copy_file source_file dest_file w =
     (case sys_open source_file O_RDONLY w of
        (source_fd, w1) \<Rightarrow>
          if source_fd = - 1 then
            Some (1, write_void STDERR_FILENO error2
                       (write_str STDERR_FILENO source_file
                          (write_void STDERR_FILENO err_open_src w1)))
          else
            (case sys_open dest_file O_WRONLY_CREAT_TRUNC w1 of
               (dest_fd, w2) \<Rightarrow>
                 if dest_fd = - 1 then
                   Some (1, close_void (nat source_fd)
                              (write_void STDERR_FILENO error2
                                 (write_str STDERR_FILENO dest_file
                                    (write_void STDERR_FILENO err_open_dst w2))))
                 else
                   (case copy_loop (nat source_fd) (nat dest_fd) w2 of
                      None \<Rightarrow> None
                    | Some (Exit status w3) \<Rightarrow> Some (status, w3)
                    | Some (Finished (bytes_read, w3)) \<Rightarrow>
                        Some (close_and_report (nat source_fd) (nat dest_fd)
                                source_file dest_file bytes_read w3))))"

subsection \<open>Step 2: does the destination exist? (lines 67 to 127)\<close>

definition confirm_overwrite :: "path \<Rightarrow> char \<Rightarrow> world \<Rightarrow> world outcome option" where
  "confirm_overwrite dest_file response0 w =
     (case sys_access dest_file w of
        (r, w1) \<Rightarrow>
          if r = 0 then
            confirm_loop response0
              (write_void STDOUT_FILENO prompt2
                 (write_str STDOUT_FILENO dest_file
                    (write_void STDOUT_FILENO prompt1 w1)))
          else Some (Finished w1))"

subsection \<open>\<open>main\<close>\<close>

text \<open>
  \<open>argc\<close> is the length of \<open>argv\<close>. \<open>response0\<close> is the value the uninitialised variable
  \<open>response\<close> happens to hold when the confirmation loop starts. The result is the exit
  status and the final world, or \<open>None\<close> when the program never returns.
\<close>

definition main :: "string list \<Rightarrow> char \<Rightarrow> world \<Rightarrow> (int \<times> world) option" where
  "main argv response0 w =
     (if length argv \<noteq> 3 then Some (1, write_void STDERR_FILENO usage w)
      else
        (let source_file = argv ! 1; dest_file = argv ! 2
         in case confirm_overwrite dest_file response0 w of
              None \<Rightarrow> None
            | Some (Exit status w2) \<Rightarrow> Some (status, w2)
            | Some (Finished w2) \<Rightarrow> copy_file source_file dest_file w2))"

section \<open>Vocabulary of the statements\<close>

text \<open>The outcome of the next read on standard input, and the event that read logs.\<close>

definition next_rd :: "rd list \<Rightarrow> rd" where
  "next_rd xs = (case xs of [] \<Rightarrow> RdEof | x # _ \<Rightarrow> x)"

definition rd_event :: "rd \<Rightarrow> event" where
  "rd_event x =
     (case x of
        RdErr \<Rightarrow> EvRead STDIN_FILENO 1 [] (- 1)
      | RdEof \<Rightarrow> EvRead STDIN_FILENO 1 [] 0
      | RdByte c \<Rightarrow> EvRead STDIN_FILENO 1 [c] 1)"

definition wrote :: "nat \<Rightarrow> string \<Rightarrow> event" where
  "wrote fd msg = EvWrite fd msg (int (length msg))"

text \<open>The answers that the confirmation loop accepts.\<close>

definition valid_answer :: "char \<Rightarrow> bool" where
  "valid_answer c = (c = CHR ''y'' \<or> c = CHR ''Y'' \<or> c = CHR ''n'' \<or> c = CHR ''N'')"

text \<open>
  A prompt cycle that reads the answer byte \<open>c\<close> and then meets the outcome \<open>x\<close> on its
  second read: what a list of such cycles takes from standard input, what it logs when
  each answer is rejected, and the value of \<open>response\<close> after them.
\<close>

fun cycles :: "(char \<times> rd) list \<Rightarrow> rd list" where
  "cycles [] = []"
| "cycles ((c, x) # cs) = RdByte c # x # cycles cs"

fun reprompts :: "(char \<times> rd) list \<Rightarrow> event list" where
  "reprompts [] = []"
| "reprompts ((c, x) # cs) =
     rd_event (RdByte c) # rd_event x # wrote STDOUT_FILENO msg_invalid # reprompts cs"

fun last_response :: "char \<Rightarrow> (char \<times> rd) list \<Rightarrow> char" where
  "last_response r [] = r"
| "last_response r ((c, x) # cs) = last_response c cs"

text \<open>The events logged since the world \<open>w\<close>, and whether an \<open>open\<close> is among some events.\<close>

definition new_events :: "world \<Rightarrow> world \<Rightarrow> event list" where
  "new_events w w' = drop (length (trace w)) (trace w')"

fun is_open :: "path \<Rightarrow> oflag \<Rightarrow> event \<Rightarrow> bool" where
  "is_open p fl (EvOpen q fl' r) = (q = p \<and> fl' = fl)"
| "is_open p fl _ = False"

definition opened :: "path \<Rightarrow> oflag \<Rightarrow> event list \<Rightarrow> bool" where
  "opened p fl evs = list_ex (is_open p fl) evs"

text \<open>
  The bytes that the reads on a descriptor delivered, and the bytes that the writes on
  a descriptor stored, in the order of the calls.
\<close>

fun data_read :: "nat \<Rightarrow> event list \<Rightarrow> string" where
  "data_read fd [] = []"
| "data_read fd (EvRead fd' count bs r # evs) =
     (if fd' = fd then bs @ data_read fd evs else data_read fd evs)"
| "data_read fd (_ # evs) = data_read fd evs"

fun data_written :: "nat \<Rightarrow> event list \<Rightarrow> string" where
  "data_written fd [] = []"
| "data_written fd (EvWrite fd' buf r # evs) =
     (if fd' = fd then take (nat r) buf @ data_written fd evs else data_written fd evs)"
| "data_written fd (_ # evs) = data_written fd evs"

text \<open>
  The state of the transfer between two iterations, for a source with content \<open>cs\<close>, with
  \<open>t0\<close> the trace when the loop started: both offsets stand at the same \<open>n\<close>, the
  destination holds the first \<open>n\<close> bytes of the source, and these are the bytes read and
  the bytes written so far.
\<close>

definition copy_inv ::
  "nat \<Rightarrow> nat \<Rightarrow> path \<Rightarrow> path \<Rightarrow> string \<Rightarrow> event list \<Rightarrow> world \<Rightarrow> bool" where
  "copy_inv source_fd dest_fd src dst cs t0 w =
     (case (fds w source_fd, fds w dest_fd) of
        (Some (p, n), Some (q, m)) \<Rightarrow>
          p = src \<and> q = dst \<and> m = n \<and> n \<le> length cs \<and>
          files w src = Some cs \<and> files w dst = Some (take n cs) \<and>
          length t0 \<le> length (trace w) \<and>
          data_read source_fd (drop (length t0) (trace w)) = take n cs \<and>
          data_written dest_fd (drop (length t0) (trace w)) = take n cs
      | _ \<Rightarrow> False)"

text \<open>
  What holds of the transfer at every moment, also after a failed write: the bytes
  written are a prefix of the bytes read, these are a prefix of the source, and the
  destination holds exactly the bytes written.
\<close>

definition holds_prefix ::
  "nat \<Rightarrow> nat \<Rightarrow> path \<Rightarrow> path \<Rightarrow> string \<Rightarrow> event list \<Rightarrow> world \<Rightarrow> bool" where
  "holds_prefix source_fd dest_fd src dst cs t0 w =
     (let evs = drop (length t0) (trace w)
      in prefix (data_written dest_fd evs) (data_read source_fd evs) \<and>
         prefix (data_read source_fd evs) cs \<and>
         files w dst = Some (data_written dest_fd evs) \<and>
         files w src = Some cs \<and>
         length t0 \<le> length (trace w))"

text \<open>Fewer bytes were written on the destination than were read from the source.\<close>

definition fell_short :: "nat \<Rightarrow> nat \<Rightarrow> event list \<Rightarrow> world \<Rightarrow> bool" where
  "fell_short source_fd dest_fd t0 w =
     (length (data_written dest_fd (drop (length t0) (trace w)))
        < length (data_read source_fd (drop (length t0) (trace w))))"

text \<open>The file offset of an open descriptor.\<close>

definition offset :: "nat \<Rightarrow> world \<Rightarrow> nat" where
  "offset fd w = (case fds w fd of Some (p, n) \<Rightarrow> n | None \<Rightarrow> 0)"

text \<open>A world for the examples: one file \<open>a\<close> holding \<open>hello world\<close>, nothing else.\<close>

definition world0 :: world where
  "world0 =
     \<lparr>files = [''a'' \<mapsto> ''hello world''], fds = Map.empty, next_fd = 3, stdin = [],
      no_read = {}, no_write = {}, rd_script = [], wr_script = [], bad_close = {},
      trace = []\<rparr>"

text \<open>The same with a second file \<open>b\<close> holding \<open>old\<close>.\<close>

definition world_both :: world where
  "world_both = world0\<lparr>files := [''a'' \<mapsto> ''hello world'', ''b'' \<mapsto> ''old'']\<rparr>"

text \<open>
  \<open>world0\<close> after \<open>a\<close> was opened for reading and \<open>b\<close> created for writing, with a kernel
  that will accept only 3 bytes of the first write.
\<close>

definition world_open :: world where
  "world_open =
     world0\<lparr>files := [''a'' \<mapsto> ''hello world'', ''b'' \<mapsto> []],
            fds := [3 \<mapsto> (''a'', 0), 4 \<mapsto> (''b'', 0)], next_fd := 5,
            wr_script := [IoMax 3]\<rparr>"

text \<open>\<open>world_open\<close> after the transfer loop has failed on that short write.\<close>

definition world_cut :: world where
  "world_cut =
     world_open\<lparr>files := [''a'' \<mapsto> ''hello world'', ''b'' \<mapsto> ''hel''],
                fds := Map.empty, wr_script := [],
                trace := [EvRead 3 4096 ''hello world'' 11, EvWrite 4 ''hello world'' 3,
                          EvWrite 2 err_incomplete 24, EvClose 3 0, EvClose 4 0]\<rparr>"

text \<open>What a finished run shows: its exit status, its final world, a file at the end.\<close>

definition exit_status :: "(int \<times> world) option \<Rightarrow> int option" where
  "exit_status r = map_option fst r"

definition final_world :: "(int \<times> world) option \<Rightarrow> world option" where
  "final_world r = map_option snd r"

definition final_file :: "path \<Rightarrow> (int \<times> world) option \<Rightarrow> string option" where
  "final_file p r = (case r of None \<Rightarrow> None | Some (status, w) \<Rightarrow> files w p)"

text \<open>The world in which one pass through the confirmation loop ends.\<close>

definition after_body :: "(char \<times> world, world) flow \<Rightarrow> world" where
  "after_body f = (case f of Continue (c, w) \<Rightarrow> w | Break w \<Rightarrow> w | Return status w \<Rightarrow> w)"

section \<open>Lemmas about the system calls and the two loops\<close>

lemma write_void_std:
  "fd = STDOUT_FILENO \<or> fd = STDERR_FILENO \<Longrightarrow>
   write_void fd buf w = w\<lparr>trace := trace w @ [wrote fd buf]\<rparr>"
  by (auto simp: write_void_def sys_write_def log_event_def wrote_def)

lemma write_void_stdout [simp]:
  "write_void STDOUT_FILENO buf w = w\<lparr>trace := trace w @ [wrote STDOUT_FILENO buf]\<rparr>"
  by (simp add: write_void_std)

lemma write_void_stderr [simp]:
  "write_void STDERR_FILENO buf w = w\<lparr>trace := trace w @ [wrote STDERR_FILENO buf]\<rparr>"
  by (simp add: write_void_std)

lemma write_str_stdout [simp]:
  "write_str STDOUT_FILENO str w =
   w\<lparr>trace := trace w @ [wrote STDOUT_FILENO (take (string_length str) str)]\<rparr>"
  by (simp add: write_str_def)

lemma write_str_stderr [simp]:
  "write_str STDERR_FILENO str w =
   w\<lparr>trace := trace w @ [wrote STDERR_FILENO (take (string_length str) str)]\<rparr>"
  by (simp add: write_str_def)

lemma close_void_eq:
  "close_void fd w =
   w\<lparr>fds := (fds w)(fd := None),
     trace := trace w @ [EvClose fd (if fds w fd = None \<or> fd \<in> bad_close w then - 1 else 0)]\<rparr>"
  by (simp add: close_void_def sys_close_def log_event_def Let_def)

lemma sys_read_stdin:
  "sys_read STDIN_FILENO 1 w =
     (case next_rd (stdin w) of RdErr \<Rightarrow> - 1 | RdEof \<Rightarrow> 0 | RdByte c \<Rightarrow> 1,
      case next_rd (stdin w) of RdByte c \<Rightarrow> [c] | _ \<Rightarrow> [],
      w\<lparr>stdin := tl (stdin w), trace := trace w @ [rd_event (next_rd (stdin w))]\<rparr>)"
  by (cases w) (auto simp: sys_read_def next_rd_def rd_event_def log_event_def split: list.splits rd.splits)

lemma confirm_body_eq:
  "confirm_body response w =
     (let x = next_rd (stdin w); y = next_rd (tl (stdin w));
          r = (case x of RdByte c \<Rightarrow> c | _ \<Rightarrow> response);
          w2 = w\<lparr>stdin := tl (tl (stdin w)), trace := trace w @ [rd_event x, rd_event y]\<rparr>
      in if x = RdErr
         then Return 1 (w\<lparr>stdin := tl (stdin w),
                          trace := trace w @ [rd_event x, wrote STDERR_FILENO err_input]\<rparr>)
         else if r = CHR ''y'' \<or> r = CHR ''Y''
         then Break (w2\<lparr>trace := trace w2 @ [wrote STDOUT_FILENO msg_proceed]\<rparr>)
         else if r = CHR ''n'' \<or> r = CHR ''N''
         then Return 0 (w2\<lparr>trace := trace w2 @ [wrote STDOUT_FILENO msg_cancel]\<rparr>)
         else Continue (r, w2\<lparr>trace := trace w2 @ [wrote STDOUT_FILENO msg_invalid]\<rparr>))"
  by (cases "next_rd (stdin w)") (simp_all add: confirm_body_def sys_read_stdin Let_def del: One_nat_def)

lemma confirm_loop_cycles:
  "\<forall>a \<in> fst ` set bad. \<not> valid_answer a \<Longrightarrow> stdin w = cycles bad @ rest \<Longrightarrow>
   confirm_loop r w =
   confirm_loop (last_response r bad) (w\<lparr>stdin := rest, trace := trace w @ reprompts bad\<rparr>)"
proof (induction bad arbitrary: r w)
  case Nil
  then have "w\<lparr>stdin := rest, trace := trace w @ []\<rparr> = w" by simp
  then show ?case by simp
next
  case (Cons p bad)
  obtain c x where p: "p = (c, x)" by (cases p)
  from Cons.prems p have inv: "\<not> valid_answer c" and rest: "\<forall>a \<in> fst ` set bad. \<not> valid_answer a"
    and st: "stdin w = RdByte c # x # cycles bad @ rest" by auto
  let ?w = "w\<lparr>stdin := cycles bad @ rest,
               trace := trace w @ [rd_event (RdByte c), rd_event x, wrote STDOUT_FILENO msg_invalid]\<rparr>"
  from inv st have body: "confirm_body r w = Continue (c, ?w)"
    by (simp add: confirm_body_eq next_rd_def valid_answer_def)
  have "confirm_loop r w = confirm_loop c ?w"
    by (subst confirm_loop.simps) (simp add: body)
  also have "\<dots> = confirm_loop (last_response c bad)
                     (?w\<lparr>stdin := rest, trace := trace ?w @ reprompts bad\<rparr>)"
    by (rule Cons.IH [OF rest]) simp
  finally show ?case by (simp add: p)
qed

lemma last_response_invalid:
  "\<not> valid_answer c \<Longrightarrow> \<forall>a \<in> fst ` set bad. \<not> valid_answer a \<Longrightarrow>
   \<not> valid_answer (last_response c bad)"
  by (induction bad arbitrary: c) auto

lemmas confirm_loop_induct = confirm_loop.raw_induct [rotated 1, consumes 1, case_names step]

lemma confirm_loop_eof_None:
  assumes "stdin w = []" "\<not> valid_answer r"
  shows "confirm_loop r w = None"
proof (rule ccontr)
  assume "confirm_loop r w \<noteq> None"
  then obtain y where y: "confirm_loop r w = Some y" by auto
  have "\<not> (stdin w = [] \<and> \<not> valid_answer r)"
    using y
  proof (induction r w y rule: confirm_loop_induct)
    case (step f r w y)
    show ?case
    proof
      assume a: "stdin w = [] \<and> \<not> valid_answer r"
      let ?w = "w\<lparr>stdin := [], trace := trace w @ [rd_event RdEof, rd_event RdEof, wrote STDOUT_FILENO msg_invalid]\<rparr>"
      from a have "confirm_body r w = Continue (r, ?w)"
        by (simp add: confirm_body_eq next_rd_def valid_answer_def)
      with step(2) have "f r ?w = Some y" by simp
      from step(1) [OF this] a show False by simp
    qed
  qed
  with assms show False by simp
qed

lemma confirm_loop_frame:
  "confirm_loop r w = Some out \<Longrightarrow>
   \<exists>s evs. (\<forall>e \<in> set evs. \<forall>p fl. \<not> is_open p fl e) \<and>
     (case out of
        Finished w' \<Rightarrow> w' = w\<lparr>stdin := s, trace := trace w @ evs\<rparr>
      | Exit st w' \<Rightarrow> w' = w\<lparr>stdin := s, trace := trace w @ evs\<rparr>)"
proof (induction r w out rule: confirm_loop_induct)
  case (step f r w out)
  let ?x = "next_rd (stdin w)" and ?y = "next_rd (tl (stdin w))"
  have ev: "\<And>z p fl. \<not> is_open p fl (rd_event z)" "\<And>fd m p fl. \<not> is_open p fl (wrote fd m)"
    by (auto simp: rd_event_def wrote_def split: rd.splits)
  show ?case
  proof (cases "confirm_body r w")
    case (Continue cw)
    obtain c w2 where cw: "cw = (c, w2)" by (cases cw)
    from Continue cw have w2: "w2 = w\<lparr>stdin := tl (tl (stdin w)),
         trace := trace w @ [rd_event ?x, rd_event ?y, wrote STDOUT_FILENO msg_invalid]\<rparr>"
      by (auto simp: confirm_body_eq Let_def split: if_splits)
    from step(2) Continue cw have "f c w2 = Some out" by simp
    from step(1) [OF this] obtain s evs where
      evs: "\<forall>e \<in> set evs. \<forall>p fl. \<not> is_open p fl e" and
      out: "case out of Finished w' \<Rightarrow> w' = w2\<lparr>stdin := s, trace := trace w2 @ evs\<rparr>
            | Exit st w' \<Rightarrow> w' = w2\<lparr>stdin := s, trace := trace w2 @ evs\<rparr>" by blast
    let ?evs = "[rd_event ?x, rd_event ?y, wrote STDOUT_FILENO msg_invalid] @ evs"
    have "\<forall>e \<in> set ?evs. \<forall>p fl. \<not> is_open p fl e" using evs ev by auto
    moreover have "case out of Finished w' \<Rightarrow> w' = w\<lparr>stdin := s, trace := trace w @ ?evs\<rparr>
            | Exit st w' \<Rightarrow> w' = w\<lparr>stdin := s, trace := trace w @ ?evs\<rparr>"
      using out by (simp add: w2 split: outcome.splits)
    ultimately show ?thesis by blast
  next
    case (Break w2)
    then have w2: "w2 = w\<lparr>stdin := tl (tl (stdin w)),
         trace := trace w @ [rd_event ?x, rd_event ?y, wrote STDOUT_FILENO msg_proceed]\<rparr>"
      by (auto simp: confirm_body_eq Let_def split: if_splits)
    from step(2) Break have "out = Finished w2" by simp
    with w2 ev show ?thesis
      by (intro exI [of _ "tl (tl (stdin w))"]
            exI [of _ "[rd_event ?x, rd_event ?y, wrote STDOUT_FILENO msg_proceed]"]) simp
  next
    case (Return st w2)
    then have "w2 = w\<lparr>stdin := tl (stdin w),
                 trace := trace w @ [rd_event ?x, wrote STDERR_FILENO err_input]\<rparr>
       \<or> w2 = w\<lparr>stdin := tl (tl (stdin w)),
         trace := trace w @ [rd_event ?x, rd_event ?y, wrote STDOUT_FILENO msg_cancel]\<rparr>"
      by (auto simp: confirm_body_eq Let_def split: if_splits)
    moreover from step(2) Return have "out = Exit st w2" by simp
    ultimately show ?thesis
    proof (elim disjE)
      assume a: "w2 = w\<lparr>stdin := tl (stdin w),
                 trace := trace w @ [rd_event ?x, wrote STDERR_FILENO err_input]\<rparr>"
      with \<open>out = Exit st w2\<close> ev show ?thesis
        by (intro exI [of _ "tl (stdin w)"]
            exI [of _ "[rd_event ?x, wrote STDERR_FILENO err_input]"]) simp
    next
      assume a: "w2 = w\<lparr>stdin := tl (tl (stdin w)),
         trace := trace w @ [rd_event ?x, rd_event ?y, wrote STDOUT_FILENO msg_cancel]\<rparr>"
      with \<open>out = Exit st w2\<close> ev show ?thesis
        by (intro exI [of _ "tl (tl (stdin w))"]
            exI [of _ "[rd_event ?x, rd_event ?y, wrote STDOUT_FILENO msg_cancel]"]) simp
    qed
  qed
qed

lemma data_read_append [simp]:
  "data_read fd (xs @ ys) = data_read fd xs @ data_read fd ys"
  by (induction fd xs rule: data_read.induct) auto

lemma data_written_append [simp]:
  "data_written fd (xs @ ys) = data_written fd xs @ data_written fd ys"
  by (induction fd xs rule: data_written.induct) auto

lemma put_at_end: "length ct = n \<Longrightarrow> put_at n bs ct = ct @ bs"
  by (simp add: put_at_def)

lemma take_length_take: "take (length (take j xs)) xs = take j xs"
  by (simp add: min_def take_all)

lemma file_read:
  assumes "fds w fd = Some (p, n)" "files w p = Some cs" "fd \<noteq> STDIN_FILENO"
  shows "\<exists>bs. (sys_read fd BUFFER_SIZE w =
            (- 1, [], w\<lparr>rd_script := tl (rd_script w),
                        trace := trace w @ [EvRead fd BUFFER_SIZE [] (- 1)]\<rparr>)) \<or>
          (sys_read fd BUFFER_SIZE w =
            (int (length bs), bs,
             w\<lparr>fds := (fds w)(fd \<mapsto> (p, n + length bs)), rd_script := tl (rd_script w),
               trace := trace w @ [EvRead fd BUFFER_SIZE bs (int (length bs))]\<rparr>) \<and>
           bs = take (length bs) (drop n cs) \<and> (bs = [] \<longrightarrow> length cs \<le> n))"
proof (cases "rd_script w")
  case Nil
  let ?bs = "take BUFFER_SIZE (drop n cs)"
  have "sys_read fd BUFFER_SIZE w =
            (int (length ?bs), ?bs,
             w\<lparr>fds := (fds w)(fd \<mapsto> (p, n + length ?bs)), rd_script := tl (rd_script w),
               trace := trace w @ [EvRead fd BUFFER_SIZE ?bs (int (length ?bs))]\<rparr>)"
    using assms Nil by (cases w) (simp add: sys_read_def log_event_def Let_def)
  moreover have "?bs = take (length ?bs) (drop n cs)" by (simp only: take_length_take)
  moreover have "?bs = [] \<longrightarrow> length cs \<le> n" by (auto simp: BUFFER_SIZE_def)
  ultimately show ?thesis by blast
next
  case (Cons x rest)
  show ?thesis
  proof (cases x)
    case IoErr
    with assms Cons show ?thesis
      by (simp add: sys_read_def log_event_def)
  next
    case (IoMax k)
    let ?bs = "take (max 1 k) (take BUFFER_SIZE (drop n cs))"
    have "sys_read fd BUFFER_SIZE w =
            (int (length ?bs), ?bs,
             w\<lparr>fds := (fds w)(fd \<mapsto> (p, n + length ?bs)), rd_script := tl (rd_script w),
               trace := trace w @ [EvRead fd BUFFER_SIZE ?bs (int (length ?bs))]\<rparr>)"
      using assms Cons IoMax by (simp add: sys_read_def log_event_def Let_def)
    moreover have "?bs = take (min (max 1 k) BUFFER_SIZE) (drop n cs)" by simp
    then have "?bs = take (length ?bs) (drop n cs)" by (metis take_length_take)
    moreover have "?bs = [] \<longrightarrow> length cs \<le> n" by (auto simp: BUFFER_SIZE_def)
    ultimately show ?thesis by blast
  qed
qed

lemma file_write:
  assumes "fds w fd = Some (p, n)" "files w p = Some ct" "length ct = n" "2 < fd"
  shows "sys_write fd bs w =
            (- 1, w\<lparr>wr_script := tl (wr_script w), trace := trace w @ [EvWrite fd bs (- 1)]\<rparr>) \<or>
         (\<exists>k. sys_write fd bs w =
            (int (length (take k bs)),
             w\<lparr>files := (files w)(p \<mapsto> ct @ take k bs),
               fds := (fds w)(fd \<mapsto> (p, n + length (take k bs))),
               wr_script := tl (wr_script w),
               trace := trace w @ [EvWrite fd bs (int (length (take k bs)))]\<rparr>))"
proof (cases "wr_script w")
  case Nil
  have "sys_write fd bs w =
            (int (length (take (length bs) bs)),
             w\<lparr>files := (files w)(p \<mapsto> ct @ take (length bs) bs),
               fds := (fds w)(fd \<mapsto> (p, n + length (take (length bs) bs))),
               wr_script := tl (wr_script w),
               trace := trace w @ [EvWrite fd bs (int (length (take (length bs) bs)))]\<rparr>)"
    using assms Nil
    by (cases w) (simp add: sys_write_def log_event_def put_at_end STDOUT_FILENO_def STDERR_FILENO_def)
  then show ?thesis by blast
next
  case (Cons x rest)
  show ?thesis
  proof (cases x)
    case IoErr
    with assms Cons show ?thesis
      by (simp add: sys_write_def log_event_def STDOUT_FILENO_def STDERR_FILENO_def)
  next
    case (IoMax k)
    have "sys_write fd bs w =
            (int (length (take k bs)),
             w\<lparr>files := (files w)(p \<mapsto> ct @ take k bs),
               fds := (fds w)(fd \<mapsto> (p, n + length (take k bs))),
               wr_script := tl (wr_script w),
               trace := trace w @ [EvWrite fd bs (int (length (take k bs)))]\<rparr>)"
      using assms Cons IoMax
      by (simp add: sys_write_def log_event_def put_at_end Let_def STDOUT_FILENO_def STDERR_FILENO_def)
    then show ?thesis by blast
  qed
qed

lemma copy_invE:
  assumes "copy_inv sfd dfd src dst cs t0 w"
  obtains n where "fds w sfd = Some (src, n)" "fds w dfd = Some (dst, n)" "n \<le> length cs"
    "files w src = Some cs" "files w dst = Some (take n cs)" "length t0 \<le> length (trace w)"
    "data_read sfd (drop (length t0) (trace w)) = take n cs"
    "data_written dfd (drop (length t0) (trace w)) = take n cs"
  using assms by (auto simp: copy_inv_def split: option.splits)

lemma copy_invI:
  assumes "fds w sfd = Some (src, n)" "fds w dfd = Some (dst, n)" "n \<le> length cs"
    "files w src = Some cs" "files w dst = Some (take n cs)" "length t0 \<le> length (trace w)"
    "data_read sfd (drop (length t0) (trace w)) = take n cs"
    "data_written dfd (drop (length t0) (trace w)) = take n cs"
  shows "copy_inv sfd dfd src dst cs t0 w"
  using assms by (simp add: copy_inv_def)

lemma take_chunk:
  assumes "bs = take (length bs) (drop n cs)"
  shows "take n cs @ bs = take (n + length bs) cs" "length bs \<le> length cs - n"
proof -
  show "take n cs @ bs = take (n + length bs) cs"
    by (subst assms) (simp add: take_add)
  have "length bs = length (take (length bs) (drop n cs))" using assms by simp
  then show "length bs \<le> length cs - n" by simp
qed

lemma take_min_length: "take (min (length bs) k) bs = take k bs"
  by (cases "length bs \<le> k") simp_all

lemma copy_body_step:
  assumes inv: "copy_inv sfd dfd src dst cs t0 w"
    and ne: "src \<noteq> dst" "sfd \<noteq> dfd" "sfd \<noteq> STDIN_FILENO" "2 < dfd"
  shows "(\<exists>w'. copy_body sfd dfd w = Continue w' \<and> copy_inv sfd dfd src dst cs t0 w' \<and>
               stdin w' = stdin w \<and> offset sfd w < offset sfd w') \<or>
         (\<exists>b w'. copy_body sfd dfd w = Break (b, w') \<and> copy_inv sfd dfd src dst cs t0 w' \<and>
               stdin w' = stdin w \<and> (b = - 1 \<or> b = 0 \<and> files w' dst = Some cs)) \<or>
         (\<exists>w'. copy_body sfd dfd w = Return 1 w' \<and> holds_prefix sfd dfd src dst cs t0 w' \<and>
               fell_short sfd dfd t0 w' \<and> stdin w' = stdin w)"
proof -
  from inv obtain n where n:
    "fds w sfd = Some (src, n)" "fds w dfd = Some (dst, n)" "n \<le> length cs"
    "files w src = Some cs" "files w dst = Some (take n cs)" "length t0 \<le> length (trace w)"
    "data_read sfd (drop (length t0) (trace w)) = take n cs"
    "data_written dfd (drop (length t0) (trace w)) = take n cs"
    by (rule copy_invE)
  have dfd2: "dfd \<noteq> STDERR_FILENO" using ne by (simp add: STDERR_FILENO_def)
  from file_read [OF n(1) n(4) ne(3)] obtain bs where
    rd: "sys_read sfd BUFFER_SIZE w =
            (- 1, [], w\<lparr>rd_script := tl (rd_script w),
                        trace := trace w @ [EvRead sfd BUFFER_SIZE [] (- 1)]\<rparr>) \<or>
          (sys_read sfd BUFFER_SIZE w =
            (int (length bs), bs,
             w\<lparr>fds := (fds w)(sfd \<mapsto> (src, n + length bs)), rd_script := tl (rd_script w),
               trace := trace w @ [EvRead sfd BUFFER_SIZE bs (int (length bs))]\<rparr>) \<and>
           bs = take (length bs) (drop n cs) \<and> (bs = [] \<longrightarrow> length cs \<le> n))"
    by blast
  from rd show ?thesis
  proof (elim disjE conjE)
    let ?w1 = "w\<lparr>rd_script := tl (rd_script w),
                 trace := trace w @ [EvRead sfd BUFFER_SIZE [] (- 1)]\<rparr>"
    assume a: "sys_read sfd BUFFER_SIZE w = (- 1, [], ?w1)"
    then have "copy_body sfd dfd w = Break (- 1, ?w1)" by (simp add: copy_body_def)
    moreover have "copy_inv sfd dfd src dst cs t0 ?w1"
      using n by (intro copy_invI [where n = n]) simp_all
    ultimately show ?thesis by simp
  next
    let ?w1 = "w\<lparr>fds := (fds w)(sfd \<mapsto> (src, n + length bs)), rd_script := tl (rd_script w),
               trace := trace w @ [EvRead sfd BUFFER_SIZE bs (int (length bs))]\<rparr>"
    assume a: "sys_read sfd BUFFER_SIZE w = (int (length bs), bs, ?w1)"
      and bs: "bs = take (length bs) (drop n cs)" and e: "bs = [] \<longrightarrow> length cs \<le> n"
    note ch = take_chunk [OF bs]
    have p1: "prefix (take n cs @ bs) cs" by (simp only: ch(1) take_is_prefix)
    have p2: "\<And>k. prefix (take n cs @ take k bs) cs"
    proof -
      fix k
      have "prefix (take n cs @ take k bs) (take n cs @ bs)" by (simp add: take_is_prefix)
      then show "prefix (take n cs @ take k bs) cs" using p1 by (rule prefix_order.trans)
    qed
    show ?thesis
    proof (cases "bs = []")
      case True
      with a have "copy_body sfd dfd w = Break (0, ?w1)" by (simp add: copy_body_def)
      moreover have "copy_inv sfd dfd src dst cs t0 ?w1"
        using n True ne by (intro copy_invI [where n = n]) simp_all
      moreover have "files ?w1 dst = Some cs" using n e True by simp
      ultimately show ?thesis by simp
    next
      case False
      have w1: "fds ?w1 dfd = Some (dst, n)" "files ?w1 dst = Some (take n cs)"
        "length (take n cs) = n"
        using n ne by simp_all
      from file_write [OF w1 ne(4), of bs]
      show ?thesis
      proof (elim disjE exE)
        let ?w2 = "?w1\<lparr>wr_script := tl (wr_script ?w1),
                       trace := trace ?w1 @ [EvWrite dfd bs (- 1)]\<rparr>"
        let ?w' = "close_void dfd (close_void sfd (write_void STDERR_FILENO err_write ?w2))"
        assume b: "sys_write dfd bs ?w1 = (- 1, ?w2)"
        with a False have "copy_body sfd dfd w = Return 1 ?w'"
          by (simp add: copy_body_def)
        moreover have "holds_prefix sfd dfd src dst cs t0 ?w'"
          using n ne dfd2 p1 by (simp add: holds_prefix_def close_void_eq wrote_def)
        moreover have "fell_short sfd dfd t0 ?w'"
          using n ne dfd2 False by (simp add: fell_short_def close_void_eq wrote_def)
        moreover have "stdin ?w' = stdin w" by (simp add: close_void_eq)
        ultimately show ?thesis by blast
      next
        fix k
        let ?w2 = "?w1\<lparr>files := (files ?w1)(dst \<mapsto> take n cs @ take k bs),
               fds := (fds ?w1)(dfd \<mapsto> (dst, n + length (take k bs))),
               wr_script := tl (wr_script ?w1),
               trace := trace ?w1 @ [EvWrite dfd bs (int (length (take k bs)))]\<rparr>"
        assume b: "sys_write dfd bs ?w1 = (int (length (take k bs)), ?w2)"
        show ?thesis
        proof (cases "length (take k bs) = length bs")
          case True
          then have tk: "take k bs = bs" by (auto simp: min_def split: if_splits)
          from a b False True have "copy_body sfd dfd w = Continue ?w2"
            by (simp add: copy_body_def)
          moreover have "copy_inv sfd dfd src dst cs t0 ?w2"
            using n ne ch tk by (intro copy_invI [where n = "n + length bs"]) simp_all
          moreover have "offset sfd w < offset sfd ?w2"
            using n ne False by (simp add: offset_def)
          ultimately show ?thesis by simp
        next
          case short: False
          let ?w' = "close_void dfd (close_void sfd (write_void STDERR_FILENO err_incomplete ?w2))"
          from a b False short have "copy_body sfd dfd w = Return 1 ?w'"
            by (simp add: copy_body_def)
          moreover have "holds_prefix sfd dfd src dst cs t0 ?w'"
            using n ne dfd2 p1 p2
            by (simp add: holds_prefix_def close_void_eq wrote_def take_min_length take_is_prefix)
          moreover have "fell_short sfd dfd t0 ?w'"
            using n ne dfd2 short by (simp add: fell_short_def close_void_eq wrote_def)
          moreover have "stdin ?w' = stdin w" by (simp add: close_void_eq)
          ultimately show ?thesis by blast
        qed
      qed
    qed
  qed
qed

lemma copy_inv_offset:
  "copy_inv sfd dfd src dst cs t0 w \<Longrightarrow> offset sfd w \<le> length cs"
  by (erule copy_invE) (simp add: offset_def)

lemma copy_loop_total:
  assumes "copy_inv sfd dfd src dst cs t0 w"
    and ne: "src \<noteq> dst" "sfd \<noteq> dfd" "sfd \<noteq> STDIN_FILENO" "2 < dfd"
  shows "(\<exists>b w'. copy_loop sfd dfd w = Some (Finished (b, w')) \<and>
             copy_inv sfd dfd src dst cs t0 w' \<and> stdin w' = stdin w \<and>
             (b = - 1 \<or> b = 0 \<and> files w' dst = Some cs)) \<or>
         (\<exists>w'. copy_loop sfd dfd w = Some (Exit 1 w') \<and>
             holds_prefix sfd dfd src dst cs t0 w' \<and> fell_short sfd dfd t0 w' \<and>
             stdin w' = stdin w)"
  using assms(1)
proof (induction "length cs - offset sfd w" arbitrary: w rule: less_induct)
  case less
  from copy_body_step [OF less.prems ne] consider
    (cont) w' where "copy_body sfd dfd w = Continue w'" "copy_inv sfd dfd src dst cs t0 w'"
      "stdin w' = stdin w" "offset sfd w < offset sfd w'"
  | (brk) b w' where "copy_body sfd dfd w = Break (b, w')" "copy_inv sfd dfd src dst cs t0 w'"
      "stdin w' = stdin w" "b = - 1 \<or> b = 0 \<and> files w' dst = Some cs"
  | (ret) w' where "copy_body sfd dfd w = Return 1 w'" "holds_prefix sfd dfd src dst cs t0 w'"
      "fell_short sfd dfd t0 w'" "stdin w' = stdin w"
    by blast
  then show ?case
  proof cases
    case cont
    from copy_inv_offset [OF cont(2)] cont(4)
    have "length cs - offset sfd w' < length cs - offset sfd w" by simp
    from less.hyps [OF this cont(2)] have
      "(\<exists>b w''. copy_loop sfd dfd w' = Some (Finished (b, w'')) \<and>
             copy_inv sfd dfd src dst cs t0 w'' \<and> stdin w'' = stdin w' \<and>
             (b = - 1 \<or> b = 0 \<and> files w'' dst = Some cs)) \<or>
         (\<exists>w''. copy_loop sfd dfd w' = Some (Exit 1 w'') \<and>
             holds_prefix sfd dfd src dst cs t0 w'' \<and> fell_short sfd dfd t0 w'' \<and>
             stdin w'' = stdin w')" .
    moreover have "copy_loop sfd dfd w = copy_loop sfd dfd w'"
      by (subst copy_loop.simps) (simp add: cont(1))
    ultimately show ?thesis by (simp add: cont(3))
  next
    case brk
    from brk(1) have "copy_loop sfd dfd w = Some (Finished (b, w'))"
      by (subst copy_loop.simps) simp
    with brk show ?thesis by blast
  next
    case ret
    from ret(1) have "copy_loop sfd dfd w = Some (Exit 1 w')"
      by (subst copy_loop.simps) simp
    with ret show ?thesis by blast
  qed
qed

lemma sys_close_eq:
  "sys_close fd w =
     (if fds w fd = None \<or> fd \<in> bad_close w then - 1 else 0,
      w\<lparr>fds := (fds w)(fd := None),
        trace := trace w @ [EvClose fd (if fds w fd = None \<or> fd \<in> bad_close w then - 1 else 0)]\<rparr>)"
  by (simp add: sys_close_def log_event_def Let_def)

lemma sys_open_rd_fail:
  "files w p = None \<or> p \<in> no_read w \<Longrightarrow>
   sys_open p O_RDONLY w = (- 1, w\<lparr>trace := trace w @ [EvOpen p O_RDONLY (- 1)]\<rparr>)"
  by (auto simp: sys_open_def log_event_def)

lemma sys_open_rd_ok:
  "files w p \<noteq> None \<Longrightarrow> p \<notin> no_read w \<Longrightarrow>
   sys_open p O_RDONLY w =
     (int (next_fd w),
      w\<lparr>fds := (fds w)(next_fd w \<mapsto> (p, 0)), next_fd := Suc (next_fd w),
        trace := trace w @ [EvOpen p O_RDONLY (int (next_fd w))]\<rparr>)"
  by (auto simp: sys_open_def log_event_def)

lemma sys_open_wr_fail:
  "p \<in> no_write w \<Longrightarrow>
   sys_open p O_WRONLY_CREAT_TRUNC w =
     (- 1, w\<lparr>trace := trace w @ [EvOpen p O_WRONLY_CREAT_TRUNC (- 1)]\<rparr>)"
  by (auto simp: sys_open_def log_event_def)

lemma sys_open_wr_ok:
  "p \<notin> no_write w \<Longrightarrow>
   sys_open p O_WRONLY_CREAT_TRUNC w =
     (int (next_fd w),
      w\<lparr>files := (files w)(p \<mapsto> []),
        fds := (fds w)(next_fd w \<mapsto> (p, 0)), next_fd := Suc (next_fd w),
        trace := trace w @ [EvOpen p O_WRONLY_CREAT_TRUNC (int (next_fd w))]\<rparr>)"
  by (auto simp: sys_open_def log_event_def)

lemma copy_file_src_fail:
  assumes "files w src = None \<or> src \<in> no_read w"
  shows "copy_file src dst w =
    Some (1, w\<lparr>trace := trace w @
       [EvOpen src O_RDONLY (- 1), wrote STDERR_FILENO err_open_src,
        wrote STDERR_FILENO (take (string_length src) src), wrote STDERR_FILENO error2]\<rparr>)"
  by (simp add: copy_file_def sys_open_rd_fail [OF assms])

lemma copy_file_dst_fail:
  assumes "files w src \<noteq> None" "src \<notin> no_read w" "dst \<in> no_write w"
  shows "\<exists>w'. copy_file src dst w = Some (1, w') \<and> files w' = files w \<and> stdin w' = stdin w"
  using assms(3)
  by (simp add: copy_file_def sys_open_rd_ok [OF assms(1,2)] sys_open_wr_fail close_void_eq)

lemma close_and_report_frame:
  "\<exists>st w'. close_and_report sfd dfd s d b w = (st, w') \<and>
     (st = 0 \<or> st = 1) \<and> (b = - 1 \<longrightarrow> st = 1) \<and> files w' = files w \<and> stdin w' = stdin w"
  by (simp add: close_and_report_def sys_close_eq close_void_eq)

lemma copy_file_opened:
  assumes "files w src \<noteq> None" "src \<notin> no_read w" "dst \<notin> no_write w"
    and "copy_loop (next_fd w) (Suc (next_fd w))
          (w\<lparr>files := (files w)(dst \<mapsto> []),
             fds := (fds w)(next_fd w \<mapsto> (src, 0), Suc (next_fd w) \<mapsto> (dst, 0)),
             next_fd := Suc (Suc (next_fd w)),
             trace := trace w @ [EvOpen src O_RDONLY (int (next_fd w)),
                                 EvOpen dst O_WRONLY_CREAT_TRUNC (int (Suc (next_fd w)))]\<rparr>) = r"
  shows "copy_file src dst w =
     (case r of None \<Rightarrow> None
      | Some (Exit st w3) \<Rightarrow> Some (st, w3)
      | Some (Finished (b, w3)) \<Rightarrow>
          Some (close_and_report (next_fd w) (Suc (next_fd w)) src dst b w3))"
  using assms(3,4)
  by (auto simp add: copy_file_def sys_open_rd_ok [OF assms(1,2)] sys_open_wr_ok
      simp del: of_nat_Suc split: option.splits outcome.splits)

lemma copy_file_distinct:
  assumes fd: "2 < next_fd w" and ne: "src \<noteq> dst" and cs: "files w src = Some cs"
    and ok: "src \<notin> no_read w" "dst \<notin> no_write w"
  shows "\<exists>st w' pre. copy_file src dst w = Some (st, w') \<and> (st = 0 \<or> st = 1) \<and>
           files w' src = Some cs \<and> files w' dst = Some pre \<and> prefix pre cs \<and>
           (st = 0 \<longrightarrow> pre = cs) \<and> stdin w' = stdin w"
proof -
  let ?s = "next_fd w" and ?d = "Suc (next_fd w)"
  let ?w2 = "w\<lparr>files := (files w)(dst \<mapsto> []),
             fds := (fds w)(next_fd w \<mapsto> (src, 0), Suc (next_fd w) \<mapsto> (dst, 0)),
             next_fd := Suc (Suc (next_fd w)),
             trace := trace w @ [EvOpen src O_RDONLY (int (next_fd w)),
                                 EvOpen dst O_WRONLY_CREAT_TRUNC (int (Suc (next_fd w)))]\<rparr>"
  have ex: "files w src \<noteq> None" using cs by simp
  have inv: "copy_inv ?s ?d src dst cs (trace ?w2) ?w2"
    using ne cs by (intro copy_invI [where n = 0]) simp_all
  have side: "?s \<noteq> ?d" "?s \<noteq> STDIN_FILENO" "2 < ?d"
    using fd by (simp_all add: STDIN_FILENO_def)
  from copy_loop_total [OF inv ne side] consider
    (fin) b w3 where "copy_loop ?s ?d ?w2 = Some (Finished (b, w3))"
      "copy_inv ?s ?d src dst cs (trace ?w2) w3" "stdin w3 = stdin ?w2"
      "b = - 1 \<or> b = 0 \<and> files w3 dst = Some cs"
  | (ex) w3 where "copy_loop ?s ?d ?w2 = Some (Exit 1 w3)"
      "holds_prefix ?s ?d src dst cs (trace ?w2) w3" "stdin w3 = stdin ?w2"
    by blast
  then show ?thesis
  proof cases
    case fin
    from close_and_report_frame [of ?s ?d src dst b w3] obtain st w' where
      r: "close_and_report ?s ?d src dst b w3 = (st, w')" "st = 0 \<or> st = 1" "b = - 1 \<longrightarrow> st = 1"
      "files w' = files w3" "stdin w' = stdin w3" by blast
    from fin(2) obtain n where n: "files w3 src = Some cs" "files w3 dst = Some (take n cs)"
      by (rule copy_invE)
    have "copy_file src dst w = Some (st, w')"
      using copy_file_opened [OF ex ok fin(1)] by (simp add: r(1))
    moreover have "st = 0 \<longrightarrow> take n cs = cs" using fin(4) r(3) n by auto
    ultimately show ?thesis using r n fin(3) by (auto simp: take_is_prefix)
  next
    case ex
    have "copy_file src dst w = Some (1, w3)"
      using copy_file_opened [OF \<open>files w src \<noteq> None\<close> ok ex(1)] by simp
    moreover from ex(2) have "files w3 src = Some cs"
      "\<exists>pre. files w3 dst = Some pre \<and> prefix pre cs"
      by (auto simp: holds_prefix_def Let_def)
    ultimately show ?thesis using ex(3) by auto
  qed
qed

lemma copy_file_same:
  assumes fd: "2 < next_fd w" and ex: "files w p \<noteq> None" and ok: "p \<notin> no_read w" "p \<notin> no_write w"
  shows "\<exists>st w'. copy_file p p w = Some (st, w') \<and> (st = 0 \<or> st = 1) \<and>
           files w' = (files w)(p \<mapsto> []) \<and> stdin w' = stdin w"
proof -
  let ?s = "next_fd w" and ?d = "Suc (next_fd w)"
  let ?w2 = "w\<lparr>files := (files w)(p \<mapsto> []),
             fds := (fds w)(next_fd w \<mapsto> (p, 0), Suc (next_fd w) \<mapsto> (p, 0)),
             next_fd := Suc (Suc (next_fd w)),
             trace := trace w @ [EvOpen p O_RDONLY (int (next_fd w)),
                                 EvOpen p O_WRONLY_CREAT_TRUNC (int (Suc (next_fd w)))]\<rparr>"
  have s0: "?s \<noteq> STDIN_FILENO" using fd by (simp add: STDIN_FILENO_def)
  have "fds ?w2 ?s = Some (p, 0)" "files ?w2 p = Some []" by simp_all
  from file_read [OF this s0]
  have "\<exists>b w3. sys_read ?s BUFFER_SIZE ?w2 = (b, [], w3) \<and> (b = - 1 \<or> b = 0) \<and>
          files w3 = files ?w2 \<and> stdin w3 = stdin ?w2"
    by auto
  then obtain b w3 where rd: "sys_read ?s BUFFER_SIZE ?w2 = (b, [], w3)" "b = - 1 \<or> b = 0"
    "files w3 = files ?w2" "stdin w3 = stdin ?w2" by blast
  then have "copy_body ?s ?d ?w2 = Break (b, w3)" by (auto simp: copy_body_def)
  then have loop: "copy_loop ?s ?d ?w2 = Some (Finished (b, w3))"
    by (subst copy_loop.simps) simp
  from close_and_report_frame [of ?s ?d p p b w3] obtain st w' where
    r: "close_and_report ?s ?d p p b w3 = (st, w')" "st = 0 \<or> st = 1"
      "files w' = files w3" "stdin w' = stdin w3" by blast
  have "copy_file p p w = Some (st, w')"
    using copy_file_opened [OF ex ok loop] by (simp add: r(1))
  with r rd show ?thesis by simp
qed

lemma sys_access_eq:
  "sys_access p w =
     (if files w p = None then - 1 else 0,
      w\<lparr>trace := trace w @ [EvAccess p (if files w p = None then - 1 else 0)]\<rparr>)"
  by (simp add: sys_access_def log_event_def Let_def)

lemma not_open_simps [simp]:
  "\<not> is_open p fl (rd_event z)" "\<not> is_open p fl (wrote fd m)"
  by (auto simp: rd_event_def wrote_def split: rd.splits)

lemma main_cases:
  assumes argc: "length argv = 3" and run: "main argv r w = Some (st, w')"
  shows "\<exists>s evs. (\<forall>e \<in> set evs. \<forall>p fl. \<not> is_open p fl e) \<and>
           (w' = w\<lparr>stdin := s, trace := trace w @ evs\<rparr> \<or>
            copy_file (argv ! 1) (argv ! 2) (w\<lparr>stdin := s, trace := trace w @ evs\<rparr>)
              = Some (st, w'))"
proof (cases "files w (argv ! 2)")
  case None
  with argc run have "copy_file (argv ! 1) (argv ! 2)
      (w\<lparr>stdin := stdin w, trace := trace w @ [EvAccess (argv ! 2) (- 1)]\<rparr>) = Some (st, w')"
    by (simp add: main_def confirm_overwrite_def sys_access_eq Let_def)
  then show ?thesis
    by (intro exI [of _ "stdin w"] exI [of _ "[EvAccess (argv ! 2) (- 1)]"]) simp
next
  case (Some old)
  let ?pre = "[EvAccess (argv ! 2) 0, wrote STDOUT_FILENO prompt1,
               wrote STDOUT_FILENO (take (string_length (argv ! 2)) (argv ! 2)),
               wrote STDOUT_FILENO prompt2]"
  let ?w1 = "w\<lparr>trace := trace w @ ?pre\<rparr>"
  from argc Some have m: "main argv r w =
     (case confirm_loop r ?w1 of None \<Rightarrow> None
      | Some (Exit status w2) \<Rightarrow> Some (status, w2)
      | Some (Finished w2) \<Rightarrow> copy_file (argv ! 1) (argv ! 2) w2)"
    by (simp add: main_def confirm_overwrite_def sys_access_eq Let_def del: One_nat_def)
  with run obtain out where out: "confirm_loop r ?w1 = Some out"
    by (cases "confirm_loop r ?w1") auto
  from confirm_loop_frame [OF out] obtain s evs where
    evs: "\<forall>e \<in> set evs. \<forall>p fl. \<not> is_open p fl e" and
    fr: "case out of Finished w2 \<Rightarrow> w2 = ?w1\<lparr>stdin := s, trace := trace ?w1 @ evs\<rparr>
         | Exit st w2 \<Rightarrow> w2 = ?w1\<lparr>stdin := s, trace := trace ?w1 @ evs\<rparr>"
    by blast
  have ev2: "\<forall>e \<in> set (?pre @ evs). \<forall>p fl. \<not> is_open p fl e" using evs by simp
  have eq: "?w1\<lparr>stdin := s, trace := trace ?w1 @ evs\<rparr> =
            w\<lparr>stdin := s, trace := trace w @ (?pre @ evs)\<rparr>" by simp
  show ?thesis
  proof (cases out)
    case (Finished w2)
    with fr eq have "w2 = w\<lparr>stdin := s, trace := trace w @ (?pre @ evs)\<rparr>" by simp
    moreover from run m out Finished have "copy_file (argv ! 1) (argv ! 2) w2 = Some (st, w')"
      by simp
    ultimately show ?thesis using ev2 by blast
  next
    case (Exit st2 w2)
    with fr eq have "w2 = w\<lparr>stdin := s, trace := trace w @ (?pre @ evs)\<rparr>" by simp
    moreover from run m out Exit have "w' = w2" by simp
    ultimately show ?thesis using ev2 by blast
  qed
qed

lemma confirm_overwrite_frame:
  assumes "confirm_overwrite d r w = Some out"
  shows "\<exists>s evs. (\<forall>e \<in> set evs. \<forall>p fl. \<not> is_open p fl e) \<and>
     (case out of
        Finished w' \<Rightarrow> w' = w\<lparr>stdin := s, trace := trace w @ evs\<rparr>
      | Exit st w' \<Rightarrow> w' = w\<lparr>stdin := s, trace := trace w @ evs\<rparr>)"
proof (cases "files w d")
  case None
  with assms have "out = Finished (w\<lparr>stdin := stdin w, trace := trace w @ [EvAccess d (- 1)]\<rparr>)"
    by (simp add: confirm_overwrite_def sys_access_eq)
  then show ?thesis
    by (intro exI [of _ "stdin w"] exI [of _ "[EvAccess d (- 1)]"]) simp
next
  case (Some old)
  let ?pre = "[EvAccess d 0, wrote STDOUT_FILENO prompt1,
               wrote STDOUT_FILENO (take (string_length d) d), wrote STDOUT_FILENO prompt2]"
  let ?w1 = "w\<lparr>trace := trace w @ ?pre\<rparr>"
  from assms Some have "confirm_loop r ?w1 = Some out"
    by (simp add: confirm_overwrite_def sys_access_eq)
  from confirm_loop_frame [OF this] obtain s evs where
    evs: "\<forall>e \<in> set evs. \<forall>p fl. \<not> is_open p fl e" and
    fr: "case out of Finished w2 \<Rightarrow> w2 = ?w1\<lparr>stdin := s, trace := trace ?w1 @ evs\<rparr>
         | Exit st w2 \<Rightarrow> w2 = ?w1\<lparr>stdin := s, trace := trace ?w1 @ evs\<rparr>"
    by blast
  have "\<forall>e \<in> set (?pre @ evs). \<forall>p fl. \<not> is_open p fl e" using evs by simp
  moreover have "case out of
        Finished w' \<Rightarrow> w' = w\<lparr>stdin := s, trace := trace w @ (?pre @ evs)\<rparr>
      | Exit st w' \<Rightarrow> w' = w\<lparr>stdin := s, trace := trace w @ (?pre @ evs)\<rparr>"
    using fr by (simp split: outcome.splits)
  ultimately show ?thesis by blast
qed

lemma copy_file_ok:
  assumes fd: "2 < next_fd w" and run: "copy_file src dst w = Some (0, w')"
  shows "files w' dst = files w' src \<and> files w' dst \<noteq> None \<and>
         (src \<noteq> dst \<longrightarrow> files w' dst = files w src)"
proof -
  have "\<not> (files w src = None \<or> src \<in> no_read w)"
  proof
    assume "files w src = None \<or> src \<in> no_read w"
    from copy_file_src_fail [OF this, of dst] run show False by simp
  qed
  then have rd: "files w src \<noteq> None" "src \<notin> no_read w" by simp_all
  have wr: "dst \<notin> no_write w"
  proof
    assume "dst \<in> no_write w"
    from copy_file_dst_fail [OF rd this] run show False by auto
  qed
  show ?thesis
  proof (cases "src = dst")
    case True
    with copy_file_same [OF fd rd(1) rd(2)] wr run show ?thesis by auto
  next
    case False
    from rd obtain cs where cs: "files w src = Some cs" by auto
    from copy_file_distinct [OF fd False cs rd(2) wr] run cs False show ?thesis by auto
  qed
qed

lemma copy_file_returns:
  assumes "2 < next_fd w"
  shows "\<exists>st w'. copy_file src dst w = Some (st, w') \<and> (st = 0 \<or> st = 1) \<and> stdin w' = stdin w"
proof (cases "files w src = None \<or> src \<in> no_read w")
  case True
  from copy_file_src_fail [OF this, of dst] show ?thesis by simp
next
  case False
  then have rd: "files w src \<noteq> None" "src \<notin> no_read w" by simp_all
  show ?thesis
  proof (cases "dst \<in> no_write w")
    case True
    from copy_file_dst_fail [OF rd this] show ?thesis by blast
  next
    case wr: False
    show ?thesis
    proof (cases "src = dst")
      case True
      with copy_file_same [OF assms rd(1) rd(2)] wr show ?thesis by blast
    next
      case False
      from rd obtain cs where "files w src = Some cs" by auto
      from copy_file_distinct [OF assms False this rd(2) wr] show ?thesis by blast
    qed
  qed
qed

lemma copy_inv_holds_prefix:
  "copy_inv sfd dfd src dst cs t0 w \<Longrightarrow> holds_prefix sfd dfd src dst cs t0 w"
  by (erule copy_invE) (simp add: holds_prefix_def take_is_prefix)

lemma first_read_failure_fatal:
  "next_rd (stdin w) = RdErr \<Longrightarrow>
   confirm_body response w =
     Return 1 (w\<lparr>stdin := tl (stdin w),
                 trace := trace w @ [rd_event RdErr, wrote STDERR_FILENO err_input]\<rparr>)"
  by (simp add: confirm_body_eq)

lemma copy_body_short_write:
  assumes "sys_read source_fd BUFFER_SIZE w = (bytes_read, buffer, w1)"
    and "0 < bytes_read"
    and "sys_write dest_fd (take (nat bytes_read) buffer) w1 = (bytes_written, w2)"
    and "0 \<le> bytes_written" and "bytes_written < bytes_read"
  shows "copy_body source_fd dest_fd w =
      Return 1 (close_void dest_fd (close_void source_fd
                  (write_void STDERR_FILENO err_incomplete w2)))"
  using assms by (simp add: copy_body_def)

lemma copy_loop_world_open: "copy_loop 3 4 world_open = Some (Exit 1 world_cut)"
proof -
  let ?w1 = "world_open\<lparr>fds := (fds world_open)(3 \<mapsto> (''a'', length ''hello world'')),
                         trace := [EvRead 3 4096 ''hello world'' 11]\<rparr>"
  let ?w2 = "?w1\<lparr>files := (files ?w1)(''b'' \<mapsto> ''hel''),
                  fds := (fds ?w1)(4 \<mapsto> (''b'', length ''hel'')), wr_script := [],
                  trace := [EvRead 3 4096 ''hello world'' 11, EvWrite 4 ''hello world'' 3]\<rparr>"
  have h1: "sys_read 3 BUFFER_SIZE world_open = (11, ''hello world'', ?w1)"
    by (simp add: sys_read_def world_open_def world0_def BUFFER_SIZE_def STDIN_FILENO_def
        log_event_def Let_def)
  have h3: "sys_write 4 (take (nat 11) ''hello world'') ?w1 = (3, ?w2)"
    by (simp add: sys_write_def world_open_def world0_def STDOUT_FILENO_def STDERR_FILENO_def
        log_event_def put_at_def Let_def)
  have "copy_body 3 4 world_open =
      Return 1 (close_void 4 (close_void 3 (write_void STDERR_FILENO err_incomplete ?w2)))"
    by (rule copy_body_short_write [OF h1 _ h3]) simp_all
  also have "close_void 4 (close_void 3 (write_void STDERR_FILENO err_incomplete ?w2)) = world_cut"
    by (simp add: close_void_eq write_void_def sys_write_def log_event_def world_open_def
        world0_def world_cut_def STDOUT_FILENO_def STDERR_FILENO_def err_incomplete_def
        fun_eq_iff)
  finally show ?thesis
    by (subst copy_loop.simps) simp
qed

subsection \<open>A run without faults\<close>

text \<open>
  When no read, write or close fails or falls short, the transfer loop ends on a read of 0
  bytes and the program returns status 0: the source exists and may be read, the
  destination does not exist and may be created.
\<close>

lemma file_read_full:
  assumes "fds w fd = Some (p, n)" "files w p = Some cs" "fd \<noteq> STDIN_FILENO"
    and "rd_script w = []"
  shows "sys_read fd BUFFER_SIZE w =
     (int (length (take BUFFER_SIZE (drop n cs))), take BUFFER_SIZE (drop n cs),
      w\<lparr>fds := (fds w)(fd \<mapsto> (p, n + length (take BUFFER_SIZE (drop n cs)))),
        trace := trace w @ [EvRead fd BUFFER_SIZE (take BUFFER_SIZE (drop n cs))
                              (int (length (take BUFFER_SIZE (drop n cs))))]\<rparr>)"
  using assms by (simp add: sys_read_def log_event_def Let_def)

lemma file_write_full:
  assumes "fds w fd = Some (p, n)" "files w p = Some ct" "length ct = n" "2 < fd"
    and "wr_script w = []"
  shows "sys_write fd bs w =
     (int (length bs),
      w\<lparr>files := (files w)(p \<mapsto> ct @ bs), fds := (fds w)(fd \<mapsto> (p, n + length bs)),
        trace := trace w @ [EvWrite fd bs (int (length bs))]\<rparr>)"
  using assms
  by (simp add: sys_write_def log_event_def put_at_end STDOUT_FILENO_def STDERR_FILENO_def)

lemma copy_body_no_fault:
  assumes inv: "copy_inv sfd dfd src dst cs t0 w"
    and ne: "src \<noteq> dst" "sfd \<noteq> dfd" "sfd \<noteq> STDIN_FILENO" "2 < dfd"
    and nf: "rd_script w = []" "wr_script w = []"
  shows "(\<exists>w'. copy_body sfd dfd w = Continue w' \<and> rd_script w' = [] \<and> wr_script w' = [] \<and>
               bad_close w' = bad_close w) \<or>
         (\<exists>w'. copy_body sfd dfd w = Break (0, w') \<and> bad_close w' = bad_close w)"
proof -
  from inv obtain n where n:
    "fds w sfd = Some (src, n)" "fds w dfd = Some (dst, n)" "n \<le> length cs"
    "files w src = Some cs" "files w dst = Some (take n cs)"
    by (rule copy_invE)
  let ?bs = "take BUFFER_SIZE (drop n cs)"
  let ?w1 = "w\<lparr>fds := (fds w)(sfd \<mapsto> (src, n + length ?bs)),
        trace := trace w @ [EvRead sfd BUFFER_SIZE ?bs (int (length ?bs))]\<rparr>"
  note rd = file_read_full [OF n(1) n(4) ne(3) nf(1)]
  show ?thesis
  proof (cases "?bs = []")
    case True
    have "copy_body sfd dfd w = Break (int (length ?bs), ?w1)"
      unfolding copy_body_def rd using True by (auto simp: BUFFER_SIZE_def)
    with True show ?thesis by auto
  next
    case False
    have w1: "fds ?w1 dfd = Some (dst, n)" "files ?w1 dst = Some (take n cs)"
      "length (take n cs) = n" "wr_script ?w1 = []"
      using n ne nf by simp_all
    let ?w2 = "?w1\<lparr>files := (files ?w1)(dst \<mapsto> take n cs @ ?bs),
        fds := (fds ?w1)(dfd \<mapsto> (dst, n + length ?bs)),
        trace := trace ?w1 @ [EvWrite dfd ?bs (int (length ?bs))]\<rparr>"
    have tk: "take (nat (int (length ?bs))) ?bs = ?bs"
      by (simp only: nat_int take_all order_refl)
    have wr: "sys_write dfd ?bs ?w1 = (int (length ?bs), ?w2)"
      by (rule file_write_full [OF w1(1,2,3) ne(4) w1(4)])
    have "copy_body sfd dfd w = Continue ?w2"
      unfolding copy_body_def rd prod.case tk wr using False by auto
    then show ?thesis using nf by simp
  qed
qed

lemmas copy_loop_induct = copy_loop.raw_induct [rotated 1, consumes 1, case_names step]

lemma copy_loop_no_fault:
  assumes ne: "src \<noteq> dst" "sfd \<noteq> dfd" "sfd \<noteq> STDIN_FILENO" "2 < dfd"
  shows "copy_loop s d w = Some out \<Longrightarrow>
         s = sfd \<and> d = dfd \<and> copy_inv sfd dfd src dst cs t0 w \<and>
         rd_script w = [] \<and> wr_script w = [] \<longrightarrow>
         (\<exists>w'. out = Finished (0, w') \<and> bad_close w' = bad_close w)"
proof (induction s d w out rule: copy_loop_induct)
  case (step f s d w out)
  show ?case
  proof (intro impI, elim conjE)
    assume sd: "s = sfd" "d = dfd" and inv: "copy_inv sfd dfd src dst cs t0 w"
      and nf: "rd_script w = []" "wr_script w = []"
    from copy_body_no_fault [OF inv ne nf] show
      "\<exists>w'. out = Finished (0, w') \<and> bad_close w' = bad_close w"
    proof (elim disjE exE conjE)
      fix w'
      assume b: "copy_body sfd dfd w = Continue w'"
        and nf': "rd_script w' = []" "wr_script w' = []"
        and bc: "bad_close w' = bad_close w"
      from copy_body_step [OF inv ne] b have "copy_inv sfd dfd src dst cs t0 w'"
        by auto
      moreover from step(2) b sd have "f sfd dfd w' = Some out" by simp
      ultimately show ?thesis
        using step(1) [of sfd dfd w' out] nf' bc by simp
    next
      fix w'
      assume "copy_body sfd dfd w = Break (0, w')" "bad_close w' = bad_close w"
      with step(2) sd show ?thesis by auto
    qed
  qed
qed


lemma copy_file_succeeds:
  assumes fd: "2 < next_fd w" and ne: "src \<noteq> dst" and cs: "files w src = Some cs"
    and ok: "src \<notin> no_read w" "dst \<notin> no_write w"
    and nf: "rd_script w = []" "wr_script w = []" "bad_close w = {}"
  shows "\<exists>w'. copy_file src dst w = Some (0, w') \<and> files w' dst = Some cs \<and>
              files w' src = Some cs"
proof -
  let ?s = "next_fd w" and ?d = "Suc (next_fd w)"
  let ?w2 = "w\<lparr>files := (files w)(dst \<mapsto> []),
             fds := (fds w)(next_fd w \<mapsto> (src, 0), Suc (next_fd w) \<mapsto> (dst, 0)),
             next_fd := Suc (Suc (next_fd w)),
             trace := trace w @ [EvOpen src O_RDONLY (int (next_fd w)),
                                 EvOpen dst O_WRONLY_CREAT_TRUNC (int (Suc (next_fd w)))]\<rparr>"
  have ex: "files w src \<noteq> None" using cs by simp
  have inv: "copy_inv ?s ?d src dst cs (trace ?w2) ?w2"
    using ne cs by (intro copy_invI [where n = 0]) simp_all
  have side: "?s \<noteq> ?d" "?s \<noteq> STDIN_FILENO" "2 < ?d"
    using fd by (simp_all add: STDIN_FILENO_def)
  from copy_loop_total [OF inv ne side] obtain out where out: "copy_loop ?s ?d ?w2 = Some out"
    by blast
  have "?s = ?s \<and> ?d = ?d \<and> copy_inv ?s ?d src dst cs (trace ?w2) ?w2 \<and>
        rd_script ?w2 = [] \<and> wr_script ?w2 = []"
    using inv nf by simp
  with copy_loop_no_fault [OF ne side out] obtain w3 where
    w3: "out = Finished (0, w3)" "bad_close w3 = bad_close ?w2" by blast
  from copy_loop_total [OF inv ne side] out w3 have
    i3: "copy_inv ?s ?d src dst cs (trace ?w2) w3" and f3: "files w3 dst = Some cs"
    by auto
  from i3 obtain n where o3: "fds w3 ?s = Some (src, n)" "fds w3 ?d = Some (dst, n)"
    "files w3 src = Some cs"
    by (rule copy_invE)
  have "\<exists>w'. close_and_report ?s ?d src dst 0 w3 = (0, w') \<and> files w' = files w3"
    using o3 w3(2) nf(3) side(1)
    by (simp add: close_and_report_def sys_close_eq)
  then obtain w' where r: "close_and_report ?s ?d src dst 0 w3 = (0, w')" "files w' = files w3"
    by blast
  from out w3 have "copy_loop ?s ?d ?w2 = Some (Finished (0, w3))" by simp
  from copy_file_opened [OF ex ok this] have "copy_file src dst w = Some (0, w')"
    by (simp add: r(1))
  with r(2) f3 o3(3) show ?thesis by simp
qed

lemma main_succeeds:
  assumes "length argv = 3" and "2 < next_fd w"
    and "files w (argv ! 1) = Some cs" and "argv ! 1 \<notin> no_read w"
    and "files w (argv ! 2) = None" and "argv ! 2 \<notin> no_write w"
    and "rd_script w = []" and "wr_script w = []" and "bad_close w = {}"
  shows "\<exists>w'. main argv response0 w = Some (0, w') \<and> files w' (argv ! 2) = Some cs \<and>
              files w' (argv ! 1) = Some cs"
proof -
  let ?w1 = "w\<lparr>trace := trace w @ [EvAccess (argv ! 2) (- 1)]\<rparr>"
  from assms(1,5) have m: "main argv response0 w = copy_file (argv ! 1) (argv ! 2) ?w1"
    by (simp add: main_def confirm_overwrite_def sys_access_eq Let_def)
  have ne: "argv ! 1 \<noteq> argv ! 2" using assms(3,5) by auto
  have "\<exists>w'. copy_file (argv ! 1) (argv ! 2) ?w1 = Some (0, w') \<and>
          files w' (argv ! 2) = Some cs \<and> files w' (argv ! 1) = Some cs"
    using assms by (intro copy_file_succeeds ne) simp_all
  with m show ?thesis by simp
qed

section \<open>The claims\<close>

subsection \<open>C1: a successful copy reproduces the source\<close>

text \<open>
  C1. Take a run with three arguments, started with descriptors 0 to 2 taken, that returns
  exit status 0 and in which the destination was opened (the copy was performed, the user
  did not cancel). Then the destination exists and its content equals the content of the
  source; when the two paths differ this is the content the source had all along, whatever
  the destination held before.
\<close>

theorem successful_copy_reproduces_source:
  assumes "length argv = 3" and "2 < next_fd w"
    and "main argv response0 w = Some (0, w')"
    and "opened (argv ! 2) O_WRONLY_CREAT_TRUNC (new_events w w')"
  shows "files w' (argv ! 2) = files w' (argv ! 1) \<and> files w' (argv ! 2) \<noteq> None \<and>
         (argv ! 1 \<noteq> argv ! 2 \<longrightarrow> files w' (argv ! 2) = files w (argv ! 1))"
proof -
  from main_cases [OF assms(1,3)] obtain s evs where
    evs: "\<forall>e \<in> set evs. \<forall>p fl. \<not> is_open p fl e" and
    c: "w' = w\<lparr>stdin := s, trace := trace w @ evs\<rparr> \<or>
        copy_file (argv ! 1) (argv ! 2) (w\<lparr>stdin := s, trace := trace w @ evs\<rparr>) = Some (0, w')"
    by blast
  from c show ?thesis
  proof
    assume "w' = w\<lparr>stdin := s, trace := trace w @ evs\<rparr>"
    then have "new_events w w' = evs" by (simp add: new_events_def)
    with assms(4) evs show ?thesis by (auto simp: opened_def list_ex_iff)
  next
    let ?w = "w\<lparr>stdin := s, trace := trace w @ evs\<rparr>"
    assume "copy_file (argv ! 1) (argv ! 2) ?w = Some (0, w')"
    moreover have "2 < next_fd ?w" using assms(2) by simp
    ultimately have "files w' (argv ! 2) = files w' (argv ! 1) \<and> files w' (argv ! 2) \<noteq> None \<and>
         (argv ! 1 \<noteq> argv ! 2 \<longrightarrow> files w' (argv ! 2) = files ?w (argv ! 1))"
      by (rule copy_file_ok [rotated])
    moreover have "files ?w (argv ! 1) = files w (argv ! 1)" by simp
    ultimately show ?thesis by metis
  qed
qed

theorem successful_copy_reproduces_source_witness:
  "exit_status (main [''./my_copy'', ''a'', ''b''] (CHR ''q'') world0) = Some 0 \<and>
   final_file ''b'' (main [''./my_copy'', ''a'', ''b''] (CHR ''q'') world0) =
     Some ''hello world''"
proof -
  let ?argv = "[''./my_copy'', ''a'', ''b'']"
  have "case main ?argv (CHR ''q'') world0 of
          Some (st, w') \<Rightarrow> st = 0 \<and> opened ''b'' O_WRONLY_CREAT_TRUNC (new_events world0 w')
        | None \<Rightarrow> False"
    by code_simp
  then obtain w' where run: "main ?argv (CHR ''q'') world0 = Some (0, w')"
    and op: "opened (?argv ! 2) O_WRONLY_CREAT_TRUNC (new_events world0 w')"
    by (auto split: option.splits)
  have "length ?argv = 3" "2 < next_fd world0" by (simp_all add: world0_def)
  from successful_copy_reproduces_source [OF this run op]
  have "files w' (?argv ! 2) = files world0 (?argv ! 1)" by auto
  then have "files w' ''b'' = Some ''hello world''" by (simp add: world0_def)
  with run show ?thesis by (simp add: exit_status_def final_file_def)
qed

subsection \<open>C2: wrong number of arguments\<close>

text \<open>
  C2. When \<open>argc\<close> is not 3 the program writes the usage message to the error stream and
  exits with status 1. The final world is the initial one with that single \<open>write\<close> on
  descriptor 2 added to the log: no file is created or changed and no descriptor is opened.
\<close>

theorem wrong_argc_usage:
  "length argv \<noteq> 3 \<Longrightarrow>
   main argv response0 w = Some (1, w\<lparr>trace := trace w @ [wrote STDERR_FILENO usage]\<rparr>)"
  by (simp add: main_def)

theorem wrong_argc_usage_witness:
  "main [''./my_copy'', ''a''] (CHR ''q'') world0 =
     Some (1, world0\<lparr>trace := [EvWrite 2 usage 50]\<rparr>)"
  using wrong_argc_usage [of "[''./my_copy'', ''a'']" "CHR ''q''" world0]
  by (simp add: world0_def wrote_def STDERR_FILENO_def usage_def)

subsection \<open>C3: the user declines\<close>

text \<open>
  C3. The destination exists and the user, after any number of rejected answers, answers
  \<open>n\<close> or \<open>N\<close>. Then the program returns exit status 0, and the final world is the
  initial one but for the input it read and the log: the log holds the existence check,
  the prompt, the re-prompts, the two reads of the last cycle and the cancellation message
  on descriptor 1. There is no \<open>open\<close> in it: the source is never opened, no file is
  changed, the destination is as it was.
\<close>

theorem cancel_leaves_destination:
  assumes "length argv = 3"
    and "files w (argv ! 2) \<noteq> None"
    and "\<forall>a \<in> fst ` set bad. \<not> valid_answer a"
    and "stdin w = cycles bad @ RdByte c # rest"
    and "c = CHR ''n'' \<or> c = CHR ''N''"
  shows "main argv response0 w =
    Some (0, w\<lparr>stdin := tl rest,
               trace := trace w @
                 [EvAccess (argv ! 2) 0, wrote STDOUT_FILENO prompt1,
                  wrote STDOUT_FILENO (take (string_length (argv ! 2)) (argv ! 2)),
                  wrote STDOUT_FILENO prompt2] @
                 reprompts bad @
                 [rd_event (RdByte c), rd_event (next_rd rest),
                  wrote STDOUT_FILENO msg_cancel]\<rparr>)"
proof -
  let ?pre = "[EvAccess (argv ! 2) 0, wrote STDOUT_FILENO prompt1,
               wrote STDOUT_FILENO (take (string_length (argv ! 2)) (argv ! 2)),
               wrote STDOUT_FILENO prompt2]"
  let ?w1 = "w\<lparr>trace := trace w @ ?pre\<rparr>"
  let ?w2 = "?w1\<lparr>stdin := RdByte c # rest, trace := trace ?w1 @ reprompts bad\<rparr>"
  from assms(1,2) have m: "main argv response0 w =
     (case confirm_loop response0 ?w1 of None \<Rightarrow> None
      | Some (Exit status w2) \<Rightarrow> Some (status, w2)
      | Some (Finished w2) \<Rightarrow> copy_file (argv ! 1) (argv ! 2) w2)"
    by (auto simp add: main_def confirm_overwrite_def sys_access_eq Let_def simp del: One_nat_def)
  have "stdin ?w1 = cycles bad @ RdByte c # rest" using assms(4) by simp
  from confirm_loop_cycles [OF assms(3) this]
  have "confirm_loop response0 ?w1 = confirm_loop (last_response response0 bad) ?w2" .
  also have "\<dots> = Some (Exit 0 (?w2\<lparr>stdin := tl rest,
       trace := trace ?w2 @ [rd_event (RdByte c), rd_event (next_rd rest),
                             wrote STDOUT_FILENO msg_cancel]\<rparr>))"
    using assms(5)
    by (subst confirm_loop.simps) (auto simp: confirm_body_eq next_rd_def Let_def)
  finally show ?thesis by (simp add: m)
qed

theorem cancel_leaves_destination_witness:
  "main [''./my_copy'', ''b'', ''a''] (CHR ''q'')
     (world0\<lparr>stdin := [RdByte (CHR ''x''), RdByte (CHR 0x0A),
                        RdByte (CHR ''N''), RdByte (CHR 0x0A)]\<rparr>) =
   Some (0, world0\<lparr>trace :=
     [EvAccess ''a'' 0, EvWrite 1 prompt1 18, EvWrite 1 ''a'' 1, EvWrite 1 prompt2 62,
      EvRead 0 1 ''x'' 1, EvRead 0 1 [CHR 0x0A] 1, EvWrite 1 msg_invalid 40,
      EvRead 0 1 ''N'' 1, EvRead 0 1 [CHR 0x0A] 1, EvWrite 1 msg_cancel 24]\<rparr>)"
  using cancel_leaves_destination [of "[''./my_copy'', ''b'', ''a'']"
      "world0\<lparr>stdin := [RdByte (CHR ''x''), RdByte (CHR 0x0A),
                         RdByte (CHR ''N''), RdByte (CHR 0x0A)]\<rparr>"
      "[(CHR ''x'', RdByte (CHR 0x0A))]" "CHR ''N''" "[RdByte (CHR 0x0A)]" "CHR ''q''"]
  by (simp add: world0_def valid_answer_def wrote_def rd_event_def next_rd_def
      STDOUT_FILENO_def STDIN_FILENO_def prompt1_def prompt2_def msg_invalid_def msg_cancel_def)

subsection \<open>C4: any other answer is asked again\<close>

text \<open>
  C4. The answer byte \<open>c\<close> of a prompt cycle is none of \<open>y\<close>, \<open>Y\<close>, \<open>n\<close>, \<open>N\<close>, and any
  number of cycles with such answers follow it (\<open>bad\<close>); \<open>later\<close> is the input after them.
  Then:
  \<^item> the pass through the loop body writes the re-prompt on descriptor 1 and goes round
    again, whatever the second read of the cycle met: it neither leaves the loop nor
    returns from \<open>main\<close>;
  \<^item> after all these cycles the loop is where it would be at its start, with \<open>response\<close>
    the last answer, \<open>later\<close> still to read and one re-prompt logged for each cycle;
  \<^item> when nothing comes after them, the loop never returns;
  \<^item> when the next read fails, the loop returns from \<open>main\<close> with status 1 and the error
    message on descriptor 2, after one re-prompt for each rejected answer;
  \<^item> when the next answer is valid, the loop ends there, after one re-prompt for each
    rejected answer: it goes on to the copy on \<open>y\<close> or \<open>Y\<close>, and returns from \<open>main\<close> with
    status 0 and the cancellation message on \<open>n\<close> or \<open>N\<close>.

  So invalid answers never end the loop: it ends only on a valid answer or a failed read.
\<close>

theorem invalid_answer_reprompts:
  assumes "\<not> valid_answer c"
    and "stdin w = RdByte c # rest"
    and "\<forall>a \<in> fst ` set bad. \<not> valid_answer a"
    and "tl rest = cycles bad @ later"
  shows "confirm_body response w =
           Continue (c, w\<lparr>stdin := tl rest,
                           trace := trace w @ [rd_event (RdByte c), rd_event (next_rd rest),
                                               wrote STDOUT_FILENO msg_invalid]\<rparr>) \<and>
         confirm_loop response w =
           confirm_loop (last_response c bad)
             (w\<lparr>stdin := later,
                trace := trace w @ [rd_event (RdByte c), rd_event (next_rd rest),
                                    wrote STDOUT_FILENO msg_invalid] @ reprompts bad\<rparr>) \<and>
         (later = [] \<longrightarrow> confirm_loop response w = None) \<and>
         (later = RdErr # after \<longrightarrow>
            confirm_loop response w =
              Some (Exit 1
                (w\<lparr>stdin := after,
                   trace := trace w @ [rd_event (RdByte c), rd_event (next_rd rest),
                                       wrote STDOUT_FILENO msg_invalid] @ reprompts bad @
                              [rd_event RdErr, wrote STDERR_FILENO err_input]\<rparr>))) \<and>
         (later = RdByte v # after \<and> (v = CHR ''y'' \<or> v = CHR ''Y'') \<longrightarrow>
            confirm_loop response w =
              Some (Finished
                (w\<lparr>stdin := tl after,
                   trace := trace w @ [rd_event (RdByte c), rd_event (next_rd rest),
                                       wrote STDOUT_FILENO msg_invalid] @ reprompts bad @
                              [rd_event (RdByte v), rd_event (next_rd after),
                               wrote STDOUT_FILENO msg_proceed]\<rparr>))) \<and>
         (later = RdByte v # after \<and> (v = CHR ''n'' \<or> v = CHR ''N'') \<longrightarrow>
            confirm_loop response w =
              Some (Exit 0
                (w\<lparr>stdin := tl after,
                   trace := trace w @ [rd_event (RdByte c), rd_event (next_rd rest),
                                       wrote STDOUT_FILENO msg_invalid] @ reprompts bad @
                              [rd_event (RdByte v), rd_event (next_rd after),
                               wrote STDOUT_FILENO msg_cancel]\<rparr>)))"
proof -
  let ?t = "[rd_event (RdByte c), rd_event (next_rd rest), wrote STDOUT_FILENO msg_invalid]"
  let ?w1 = "w\<lparr>stdin := tl rest, trace := trace w @ ?t\<rparr>"
  let ?r = "last_response c bad"
  let ?W = "w\<lparr>stdin := later, trace := trace w @ ?t @ reprompts bad\<rparr>"
  have body: "confirm_body response w = Continue (c, ?w1)"
    using assms(1,2) by (simp add: confirm_body_eq next_rd_def valid_answer_def)
  have "confirm_loop response w = confirm_loop c ?w1"
    by (subst confirm_loop.simps) (simp add: body)
  also have "\<dots> = confirm_loop ?r (?w1\<lparr>stdin := later, trace := trace ?w1 @ reprompts bad\<rparr>)"
    by (rule confirm_loop_cycles [OF assms(3)]) (simp add: assms(4))
  finally have loop: "confirm_loop response w = confirm_loop ?r ?W" by simp
  have inv: "\<not> valid_answer ?r" by (rule last_response_invalid [OF assms(1,3)])
  have none: "later = [] \<longrightarrow> confirm_loop response w = None"
  proof
    assume "later = []"
    then have "confirm_loop ?r ?W = None" using inv by (intro confirm_loop_eof_None) simp_all
    with loop show "confirm_loop response w = None" by simp
  qed
  have err: "later = RdErr # after \<longrightarrow>
            confirm_loop response w =
              Some (Exit 1
                (w\<lparr>stdin := after,
                   trace := trace w @ ?t @ reprompts bad @
                              [rd_event RdErr, wrote STDERR_FILENO err_input]\<rparr>))"
  proof
    assume l: "later = RdErr # after"
    have "confirm_loop ?r ?W = Some (Exit 1
                (w\<lparr>stdin := after,
                   trace := trace w @ ?t @ reprompts bad @
                              [rd_event RdErr, wrote STDERR_FILENO err_input]\<rparr>))"
      by (subst confirm_loop.simps) (simp add: confirm_body_eq next_rd_def l)
    with loop show "confirm_loop response w =
              Some (Exit 1
                (w\<lparr>stdin := after,
                   trace := trace w @ ?t @ reprompts bad @
                              [rd_event RdErr, wrote STDERR_FILENO err_input]\<rparr>))" by simp
  qed
  have yes: "later = RdByte v # after \<and> (v = CHR ''y'' \<or> v = CHR ''Y'') \<longrightarrow>
            confirm_loop response w =
              Some (Finished
                (w\<lparr>stdin := tl after,
                   trace := trace w @ ?t @ reprompts bad @
                              [rd_event (RdByte v), rd_event (next_rd after),
                               wrote STDOUT_FILENO msg_proceed]\<rparr>))"
  proof
    assume l: "later = RdByte v # after \<and> (v = CHR ''y'' \<or> v = CHR ''Y'')"
    then have "confirm_loop ?r ?W = Some (Finished
                (w\<lparr>stdin := tl after,
                   trace := trace w @ ?t @ reprompts bad @
                              [rd_event (RdByte v), rd_event (next_rd after),
                               wrote STDOUT_FILENO msg_proceed]\<rparr>))"
      by (subst confirm_loop.simps) (auto simp: confirm_body_eq next_rd_def Let_def)
    with loop show "confirm_loop response w =
              Some (Finished
                (w\<lparr>stdin := tl after,
                   trace := trace w @ ?t @ reprompts bad @
                              [rd_event (RdByte v), rd_event (next_rd after),
                               wrote STDOUT_FILENO msg_proceed]\<rparr>))" by simp
  qed
  have no: "later = RdByte v # after \<and> (v = CHR ''n'' \<or> v = CHR ''N'') \<longrightarrow>
            confirm_loop response w =
              Some (Exit 0
                (w\<lparr>stdin := tl after,
                   trace := trace w @ ?t @ reprompts bad @
                              [rd_event (RdByte v), rd_event (next_rd after),
                               wrote STDOUT_FILENO msg_cancel]\<rparr>))"
  proof
    assume l: "later = RdByte v # after \<and> (v = CHR ''n'' \<or> v = CHR ''N'')"
    then have "confirm_loop ?r ?W = Some (Exit 0
                (w\<lparr>stdin := tl after,
                   trace := trace w @ ?t @ reprompts bad @
                              [rd_event (RdByte v), rd_event (next_rd after),
                               wrote STDOUT_FILENO msg_cancel]\<rparr>))"
      by (subst confirm_loop.simps) (auto simp: confirm_body_eq next_rd_def Let_def)
    with loop show "confirm_loop response w =
              Some (Exit 0
                (w\<lparr>stdin := tl after,
                   trace := trace w @ ?t @ reprompts bad @
                              [rd_event (RdByte v), rd_event (next_rd after),
                               wrote STDOUT_FILENO msg_cancel]\<rparr>))" by simp
  qed
  from body loop none err yes no show ?thesis by (intro conjI)
qed

theorem invalid_answer_reprompts_witness:
  "confirm_body (CHR ''q'')
     (world0\<lparr>stdin := [RdByte (CHR ''m''), RdByte (CHR 0x0A), RdByte (CHR ''?''), RdEof,
                        RdByte (CHR ''y'')]\<rparr>) =
   Continue (CHR ''m'',
     world0\<lparr>stdin := [RdByte (CHR ''?''), RdEof, RdByte (CHR ''y'')],
            trace := [EvRead 0 1 ''m'' 1, EvRead 0 1 [CHR 0x0A] 1, EvWrite 1 msg_invalid 40]\<rparr>) \<and>
   confirm_loop (CHR ''q'')
     (world0\<lparr>stdin := [RdByte (CHR ''m''), RdByte (CHR 0x0A), RdByte (CHR ''?''), RdEof,
                        RdByte (CHR ''y'')]\<rparr>) =
   Some (Finished
     (world0\<lparr>trace := [EvRead 0 1 ''m'' 1, EvRead 0 1 [CHR 0x0A] 1, EvWrite 1 msg_invalid 40,
                       EvRead 0 1 ''?'' 1, EvRead 0 1 [] 0, EvWrite 1 msg_invalid 40,
                       EvRead 0 1 ''y'' 1, EvRead 0 1 [] 0, EvWrite 1 msg_proceed 24]\<rparr>)) \<and>
   confirm_loop (CHR ''q'')
     (world0\<lparr>stdin := [RdByte (CHR ''m''), RdByte (CHR 0x0A), RdByte (CHR ''?''), RdEof]\<rparr>) =
   None"
proof -
  let ?wa = "world0\<lparr>stdin := [RdByte (CHR ''m''), RdByte (CHR 0x0A), RdByte (CHR ''?''), RdEof,
                               RdByte (CHR ''y'')]\<rparr>"
  let ?wb = "world0\<lparr>stdin := [RdByte (CHR ''m''), RdByte (CHR 0x0A), RdByte (CHR ''?''),
                               RdEof]\<rparr>"
  have h: "\<not> valid_answer (CHR ''m'')" "\<forall>a \<in> fst ` set [(CHR ''?'', RdEof)]. \<not> valid_answer a"
    by (simp_all add: valid_answer_def)
  have a: "stdin ?wa = RdByte (CHR ''m'') #
             [RdByte (CHR 0x0A), RdByte (CHR ''?''), RdEof, RdByte (CHR ''y'')]"
    "tl [RdByte (CHR 0x0A), RdByte (CHR ''?''), RdEof, RdByte (CHR ''y'')] =
       cycles [(CHR ''?'', RdEof)] @ [RdByte (CHR ''y'')]"
    by simp_all
  have b: "stdin ?wb = RdByte (CHR ''m'') # [RdByte (CHR 0x0A), RdByte (CHR ''?''), RdEof]"
    "tl [RdByte (CHR 0x0A), RdByte (CHR ''?''), RdEof] = cycles [(CHR ''?'', RdEof)] @ []"
    by simp_all
  note ra = invalid_answer_reprompts [OF h(1) a(1) h(2) a(2), of "CHR ''q''" "[]" "CHR ''y''"]
  note rb = invalid_answer_reprompts [OF h(1) b(1) h(2) b(2), of "CHR ''q''"]
  have body: "confirm_body (CHR ''q'') ?wa =
    Continue (CHR ''m'',
      world0\<lparr>stdin := [RdByte (CHR ''?''), RdEof, RdByte (CHR ''y'')],
             trace := [EvRead 0 1 ''m'' 1, EvRead 0 1 [CHR 0x0A] 1, EvWrite 1 msg_invalid 40]\<rparr>)"
    using ra [THEN conjunct1]
    by (simp add: world0_def wrote_def rd_event_def next_rd_def
        STDOUT_FILENO_def STDIN_FILENO_def msg_invalid_def)
  have yes: "confirm_loop (CHR ''q'') ?wa =
    Some (Finished
      (world0\<lparr>trace := [EvRead 0 1 ''m'' 1, EvRead 0 1 [CHR 0x0A] 1, EvWrite 1 msg_invalid 40,
                        EvRead 0 1 ''?'' 1, EvRead 0 1 [] 0, EvWrite 1 msg_invalid 40,
                        EvRead 0 1 ''y'' 1, EvRead 0 1 [] 0, EvWrite 1 msg_proceed 24]\<rparr>))"
    using ra [THEN conjunct2, THEN conjunct2, THEN conjunct2, THEN conjunct2, THEN conjunct1]
    by (simp add: world0_def wrote_def rd_event_def next_rd_def
        STDOUT_FILENO_def STDIN_FILENO_def msg_invalid_def msg_proceed_def)
  have never: "confirm_loop (CHR ''q'') ?wb = None"
    using rb [THEN conjunct2, THEN conjunct2, THEN conjunct1] by simp
  from body yes never show ?thesis by (intro conjI)
qed

subsection \<open>C5: a failed read at the prompt\<close>

text \<open>
  C5. The claim is that every failed read on standard input during a prompt cycle,
  the read of the line terminator included, ends the program with an error message and
  a status other than 0. The first read of a cycle is checked (\<open>first_read_failure_fatal\<close>
  above); the value of the second is thrown away. Here the destination exists, the user
  answers \<open>y\<close> and the read that follows fails: the program goes on, overwrites the
  destination and returns status 0, having written nothing on descriptor 2.
\<close>

theorem second_read_failure_ignored:
  "exit_status (main [''./my_copy'', ''a'', ''b''] (CHR ''q'')
      (world_both\<lparr>stdin := [RdByte (CHR ''y''), RdErr]\<rparr>)) = Some 0 \<and>
   final_file ''b'' (main [''./my_copy'', ''a'', ''b''] (CHR ''q'')
      (world_both\<lparr>stdin := [RdByte (CHR ''y''), RdErr]\<rparr>)) = Some ''hello world'' \<and>
   map_option (take 2 \<circ> drop 4 \<circ> trace)
     (final_world (main [''./my_copy'', ''a'', ''b''] (CHR ''q'')
        (world_both\<lparr>stdin := [RdByte (CHR ''y''), RdErr]\<rparr>))) =
     Some [EvRead 0 1 ''y'' 1, EvRead 0 1 [] (- 1)] \<and>
   map_option (data_written 2 \<circ> trace)
     (final_world (main [''./my_copy'', ''a'', ''b''] (CHR ''q'')
        (world_both\<lparr>stdin := [RdByte (CHR ''y''), RdErr]\<rparr>))) = Some []"
proof -
  have "case main [''./my_copy'', ''a'', ''b''] (CHR ''q'')
               (world_both\<lparr>stdin := [RdByte (CHR ''y''), RdErr]\<rparr>) of
          Some (status, w') \<Rightarrow>
            status = 0 \<and> files w' ''b'' = Some ''hello world'' \<and>
            take 2 (drop 4 (trace w')) = [EvRead 0 1 ''y'' 1, EvRead 0 1 [] (- 1)] \<and>
            data_written 2 (trace w') = []
        | None \<Rightarrow> False"
    by code_simp
  then show ?thesis
    by (auto simp: exit_status_def final_file_def final_world_def split: option.splits)
qed

subsection \<open>C6: the source cannot be opened\<close>

text \<open>
  C6. There are three arguments, the source does not exist or may not be read, and the
  confirmation step lets the run go on in the world \<open>w1\<close> (the destination does not
  exist, or the user confirmed), so that the program comes to open the source. Then the
  program returns exit status 1, and after the confirmation step it makes four calls and no
  other: the failed \<open>open\<close> and the three writes on descriptor 2 that spell the error
  naming the source path. No file was created or changed since the start (a missing
  destination is still missing, an existing one is as it was) and no descriptor was
  opened.
\<close>

theorem source_open_failure:
  assumes "length argv = 3"
    and "files w (argv ! 1) = None \<or> argv ! 1 \<in> no_read w"
    and "confirm_overwrite (argv ! 2) response0 w = Some (Finished w1)"
  shows "main argv response0 w =
           Some (1, w1\<lparr>trace := trace w1 @
             [EvOpen (argv ! 1) O_RDONLY (- 1), wrote STDERR_FILENO err_open_src,
              wrote STDERR_FILENO (take (string_length (argv ! 1)) (argv ! 1)),
              wrote STDERR_FILENO error2]\<rparr>) \<and>
         files w1 = files w \<and> fds w1 = fds w"
proof -
  from confirm_overwrite_frame [OF assms(3)] obtain s evs where
    w1: "w1 = w\<lparr>stdin := s, trace := trace w @ evs\<rparr>" by auto
  from assms(1,3) have "main argv response0 w = copy_file (argv ! 1) (argv ! 2) w1"
    by (simp add: main_def Let_def)
  moreover have "files w1 (argv ! 1) = None \<or> argv ! 1 \<in> no_read w1"
    using assms(2) by (simp add: w1)
  ultimately show ?thesis
    by (simp add: copy_file_src_fail w1)
qed

theorem source_open_failure_witness:
  "main [''./my_copy'', ''missing'', ''b''] (CHR ''q'') world0 =
     Some (1, world0\<lparr>trace :=
       [EvAccess ''b'' (- 1), EvOpen ''missing'' O_RDONLY (- 1), EvWrite 2 err_open_src 32,
        EvWrite 2 ''missing'' 7, EvWrite 2 error2 2]\<rparr>)"
proof -
  let ?argv = "[''./my_copy'', ''missing'', ''b'']"
  let ?w1 = "world0\<lparr>trace := [EvAccess ''b'' (- 1)]\<rparr>"
  have "length ?argv = 3"
    and "files world0 (?argv ! 1) = None \<or> ?argv ! 1 \<in> no_read world0"
    and "confirm_overwrite (?argv ! 2) (CHR ''q'') world0 = Some (Finished ?w1)"
    by (simp_all add: world0_def confirm_overwrite_def sys_access_eq)
  from source_open_failure [OF this] show ?thesis
    by (simp add: world0_def wrote_def STDERR_FILENO_def err_open_src_def error2_def)
qed

subsection \<open>C7: a short write\<close>

text \<open>
  C7. In an iteration of the transfer loop the read delivers \<open>bytes_read > 0\<close> bytes and
  the write stores fewer, without failing. Then the loop does not go round again: it
  returns from \<open>main\<close> with status 1, and after the short write the program makes three
  more calls and no other: it writes \<open>Error: Incomplete write\<close> on descriptor 2, closes
  the source descriptor and closes the destination descriptor. There is no second write
  on the destination.
\<close>

theorem short_write_is_fatal:
  assumes "sys_read source_fd BUFFER_SIZE w = (bytes_read, buffer, w1)"
    and "0 < bytes_read"
    and "sys_write dest_fd (take (nat bytes_read) buffer) w1 = (bytes_written, w2)"
    and "0 \<le> bytes_written" and "bytes_written < bytes_read"
  shows "copy_loop source_fd dest_fd w =
    Some (Exit 1
      (w2\<lparr>fds := (fds w2)(source_fd := None, dest_fd := None),
          trace := trace w2 @
            [wrote STDERR_FILENO err_incomplete,
             EvClose source_fd
               (if fds w2 source_fd = None \<or> source_fd \<in> bad_close w2 then - 1 else 0),
             EvClose dest_fd
               (if dest_fd = source_fd \<or> fds w2 dest_fd = None \<or> dest_fd \<in> bad_close w2
                then - 1 else 0)]\<rparr>))"
proof -
  from assms have "copy_body source_fd dest_fd w =
      Return 1 (close_void dest_fd (close_void source_fd
                  (write_void STDERR_FILENO err_incomplete w2)))"
    by (rule copy_body_short_write)
  then show ?thesis
    by (subst copy_loop.simps) (auto simp: close_void_eq)
qed

theorem short_write_is_fatal_witness:
  "copy_loop 3 4 world_open = Some (Exit 1 world_cut)"
proof -
  let ?w1 = "world_open\<lparr>fds := (fds world_open)(3 \<mapsto> (''a'', length ''hello world'')),
                         trace := [EvRead 3 4096 ''hello world'' 11]\<rparr>"
  let ?w2 = "?w1\<lparr>files := (files ?w1)(''b'' \<mapsto> ''hel''),
                  fds := (fds ?w1)(4 \<mapsto> (''b'', length ''hel'')), wr_script := [],
                  trace := [EvRead 3 4096 ''hello world'' 11, EvWrite 4 ''hello world'' 3]\<rparr>"
  have h1: "sys_read 3 BUFFER_SIZE world_open = (11, ''hello world'', ?w1)"
    by (simp add: sys_read_def world_open_def world0_def BUFFER_SIZE_def STDIN_FILENO_def
        log_event_def Let_def)
  have h3: "sys_write 4 (take (nat 11) ''hello world'') ?w1 = (3, ?w2)"
    by (simp add: sys_write_def world_open_def world0_def STDOUT_FILENO_def STDERR_FILENO_def
        log_event_def put_at_def Let_def)
  have "copy_loop 3 4 world_open = Some (Exit 1
      (?w2\<lparr>fds := (fds ?w2)(3 := None, 4 := None),
          trace := trace ?w2 @
            [wrote STDERR_FILENO err_incomplete,
             EvClose 3 (if fds ?w2 3 = None \<or> 3 \<in> bad_close ?w2 then - 1 else 0),
             EvClose 4 (if (4::nat) = 3 \<or> fds ?w2 4 = None \<or> 4 \<in> bad_close ?w2
                        then - 1 else 0)]\<rparr>))"
    by (rule short_write_is_fatal [OF h1 _ h3]) simp_all
  then show ?thesis
    by (simp add: world_open_def world0_def world_cut_def wrote_def STDERR_FILENO_def
        err_incomplete_def fun_eq_iff)
qed

subsection \<open>C8: what a prompt cycle takes from standard input\<close>

text \<open>
  C8, as stated, fails: a cycle does not take one answer character and its line
  terminator from every input line. On the line \<open>yes\<close> the cycle takes \<open>y\<close> and \<open>e\<close>,
  accepts the answer and leaves \<open>s\<close> and the line terminator unread.
\<close>

theorem cycle_reads_past_long_answer:
  "stdin (after_body (confirm_body (CHR ''q'')
      (world0\<lparr>stdin := map RdByte (''yes'' @ [CHR 0x0A])\<rparr>))) =
     map RdByte (''s'' @ [CHR 0x0A]) \<and>
   trace (after_body (confirm_body (CHR ''q'')
      (world0\<lparr>stdin := map RdByte (''yes'' @ [CHR 0x0A])\<rparr>))) =
     [EvRead 0 1 ''y'' 1, EvRead 0 1 ''e'' 1, EvWrite 1 msg_proceed 24]"
proof -
  have "case confirm_body (CHR ''q'') (world0\<lparr>stdin := map RdByte (''yes'' @ [CHR 0x0A])\<rparr>) of
          Break w' \<Rightarrow>
            stdin w' = map RdByte (''s'' @ [CHR 0x0A]) \<and>
            trace w' = [EvRead 0 1 ''y'' 1, EvRead 0 1 ''e'' 1, EvWrite 1 msg_proceed 24]
        | _ \<Rightarrow> False"
    by code_simp
  then show ?thesis
    by (auto simp: after_body_def split: flow.splits)
qed

text \<open>
  C8, amended. Standard input is read only when the destination exists: with descriptors
  0 to 2 taken, a run whose argument count is wrong or whose destination does not exist
  returns and leaves the input as it was. And one pass through the confirmation loop makes
  two reads of one byte, or one when the first fails: it takes the next two outcomes from
  the input, the answer byte and whatever follows it, which is the line terminator only
  when the answer line has exactly one character.
\<close>

theorem stdin_two_reads_per_cycle:
  "(2 < next_fd w \<and> (length argv = 3 \<longrightarrow> files w (argv ! 2) = None) \<longrightarrow>
      map_option stdin (final_world (main argv response w)) = Some (stdin w)) \<and>
   stdin (after_body (confirm_body response w)) =
     (if next_rd (stdin w) = RdErr then drop 1 (stdin w) else drop 2 (stdin w))"
proof (intro conjI impI)
  assume a: "2 < next_fd w \<and> (length argv = 3 \<longrightarrow> files w (argv ! 2) = None)"
  show "map_option stdin (final_world (main argv response w)) = Some (stdin w)"
  proof (cases "length argv = 3")
    case False
    then show ?thesis by (simp add: main_def final_world_def)
  next
    case True
    let ?w1 = "w\<lparr>trace := trace w @ [EvAccess (argv ! 2) (- 1)]\<rparr>"
    from a True have m: "main argv response w = copy_file (argv ! 1) (argv ! 2) ?w1"
      by (simp add: main_def confirm_overwrite_def sys_access_eq Let_def)
    from a have "2 < next_fd ?w1" by simp
    from copy_file_returns [OF this, of "argv ! 1" "argv ! 2"] m show ?thesis
      by (auto simp: final_world_def)
  qed
next
  have d: "drop (Suc 0) (stdin w) = tl (stdin w)" "drop 2 (stdin w) = tl (tl (stdin w))"
    by (simp_all add: drop_Suc numeral_2_eq_2)
  show "stdin (after_body (confirm_body response w)) =
     (if next_rd (stdin w) = RdErr then drop 1 (stdin w) else drop 2 (stdin w))"
    by (simp add: confirm_body_eq after_body_def Let_def d)
qed

theorem stdin_two_reads_per_cycle_witness:
  "map_option stdin (final_world (main [''./my_copy'', ''a'', ''b''] (CHR ''q'')
      (world0\<lparr>stdin := [RdByte (CHR ''n''), RdByte (CHR 0x0A)]\<rparr>))) =
     Some [RdByte (CHR ''n''), RdByte (CHR 0x0A)] \<and>
   stdin (after_body (confirm_body (CHR ''q'')
      (world0\<lparr>stdin := [RdByte (CHR ''n''), RdByte (CHR 0x0A)]\<rparr>))) = []"
  using stdin_two_reads_per_cycle [of "world0\<lparr>stdin := [RdByte (CHR ''n''), RdByte (CHR 0x0A)]\<rparr>"
      "[''./my_copy'', ''a'', ''b'']" "CHR ''q''"]
  by (simp add: world0_def next_rd_def)

subsection \<open>C9: the destination holds a prefix of the source\<close>

text \<open>
  C9, as stated, fails at a fatal write: the bytes written are then fewer than the bytes
  read. The source holds 11 bytes and the kernel accepts 3 bytes of the write: the run ends
  with status 1, 11 bytes read from descriptor 3 and 3 bytes written on descriptor 4.
\<close>

theorem short_write_leaves_less_written_than_read:
  "exit_status (main [''./my_copy'', ''a'', ''b''] (CHR ''q'')
      (world0\<lparr>wr_script := [IoMax 3]\<rparr>)) = Some 1 \<and>
   map_option (data_read 3 \<circ> trace)
     (final_world (main [''./my_copy'', ''a'', ''b''] (CHR ''q'')
        (world0\<lparr>wr_script := [IoMax 3]\<rparr>))) = Some ''hello world'' \<and>
   map_option (data_written 4 \<circ> trace)
     (final_world (main [''./my_copy'', ''a'', ''b''] (CHR ''q'')
        (world0\<lparr>wr_script := [IoMax 3]\<rparr>))) = Some ''hel''"
proof -
  have "case main [''./my_copy'', ''a'', ''b''] (CHR ''q'') (world0\<lparr>wr_script := [IoMax 3]\<rparr>) of
          Some (status, w') \<Rightarrow>
            status = 1 \<and> data_read 3 (trace w') = ''hello world'' \<and>
            data_written 4 (trace w') = ''hel''
        | None \<Rightarrow> False"
    by code_simp
  then show ?thesis
    by (auto simp: exit_status_def final_world_def split: option.splits)
qed

text \<open>
  C9, amended. Source and destination are different files, \<open>cs\<close> is the content of the
  source, and \<open>copy_inv\<close> holds when an iteration starts: the bytes written so far equal
  the bytes read so far, and the destination holds them. Then \<open>copy_inv\<close> holds again after
  every completed iteration and when the loop ends on a read of 0 or -1 bytes. At a fatal
  write the bytes written are a prefix of the bytes read and the destination holds them
  (\<open>holds_prefix\<close>), and they are strictly fewer than the bytes read (\<open>fell_short\<close>): the
  failed or short write left out a part of the last chunk. And the loop always ends, in
  one of these two ways: a failed run leaves in the destination a prefix of the source.
\<close>

theorem transfer_prefix_invariant:
  assumes "copy_inv source_fd dest_fd src dst cs t0 w"
    and "src \<noteq> dst" and "source_fd \<noteq> STDIN_FILENO" and "2 < dest_fd"
  shows "(case copy_body source_fd dest_fd w of
            Continue w' \<Rightarrow> copy_inv source_fd dest_fd src dst cs t0 w'
          | Break (bytes_read, w') \<Rightarrow> copy_inv source_fd dest_fd src dst cs t0 w'
          | Return status w' \<Rightarrow>
              status = 1 \<and> holds_prefix source_fd dest_fd src dst cs t0 w' \<and>
              fell_short source_fd dest_fd t0 w') \<and>
         (case copy_loop source_fd dest_fd w of
            None \<Rightarrow> False
          | Some (Finished (bytes_read, w')) \<Rightarrow>
              copy_inv source_fd dest_fd src dst cs t0 w' \<and>
              holds_prefix source_fd dest_fd src dst cs t0 w'
          | Some (Exit status w') \<Rightarrow>
              status = 1 \<and> holds_prefix source_fd dest_fd src dst cs t0 w' \<and>
              fell_short source_fd dest_fd t0 w')"
proof -
  have ne: "source_fd \<noteq> dest_fd"
    using assms(1,2) by (auto elim!: copy_invE)
  from copy_body_step [OF assms(1,2) ne assms(3,4)]
  have body: "case copy_body source_fd dest_fd w of
            Continue w' \<Rightarrow> copy_inv source_fd dest_fd src dst cs t0 w'
          | Break (bytes_read, w') \<Rightarrow> copy_inv source_fd dest_fd src dst cs t0 w'
          | Return status w' \<Rightarrow>
              status = 1 \<and> holds_prefix source_fd dest_fd src dst cs t0 w' \<and>
              fell_short source_fd dest_fd t0 w'"
    by auto
  from copy_loop_total [OF assms(1,2) ne assms(3,4)]
  have loop: "case copy_loop source_fd dest_fd w of
            None \<Rightarrow> False
          | Some (Finished (bytes_read, w')) \<Rightarrow>
              copy_inv source_fd dest_fd src dst cs t0 w' \<and>
              holds_prefix source_fd dest_fd src dst cs t0 w'
          | Some (Exit status w') \<Rightarrow>
              status = 1 \<and> holds_prefix source_fd dest_fd src dst cs t0 w' \<and>
              fell_short source_fd dest_fd t0 w'"
    by (auto simp: copy_inv_holds_prefix)
  from body loop show ?thesis ..
qed

theorem transfer_prefix_invariant_witness:
  "copy_inv 3 4 ''a'' ''b'' ''hello world'' [] world_open \<and>
   copy_loop 3 4 world_open = Some (Exit 1 world_cut) \<and>
   holds_prefix 3 4 ''a'' ''b'' ''hello world'' [] world_cut \<and>
   fell_short 3 4 [] world_cut \<and>
   files world_cut ''b'' = Some ''hel''"
proof -
  have h: "copy_inv 3 4 ''a'' ''b'' ''hello world'' [] world_open"
    "''a'' \<noteq> ''b''" "3 \<noteq> STDIN_FILENO" "2 < (4::nat)"
    by (simp_all add: copy_inv_def world_open_def world0_def STDIN_FILENO_def)
  from transfer_prefix_invariant [OF h]
  have "holds_prefix 3 4 ''a'' ''b'' ''hello world'' [] world_cut \<and>
        fell_short 3 4 [] world_cut"
    by (simp add: copy_loop_world_open)
  moreover have "files world_cut ''b'' = Some ''hel''" by (simp add: world_cut_def)
  ultimately show ?thesis using h(1) copy_loop_world_open by simp
qed

subsection \<open>C10: end of file at the prompt\<close>

text \<open>
  C10. A read of 0 bytes (end of file) as first read of a prompt cycle is no error: the
  pass through the loop body tests the value \<open>response\<close> already had, which in the first
  cycle is whatever the uninitialised variable held. It proceeds on \<open>y\<close> or \<open>Y\<close>, cancels
  on \<open>n\<close> or \<open>N\<close>, and otherwise writes the re-prompt and goes round again. So when the
  destination exists, standard input is at end of file and that value is no valid answer,
  the program takes nothing from the input and never returns.
\<close>

theorem eof_is_not_an_error:
  "(next_rd (stdin w) = RdEof \<longrightarrow>
      confirm_body response w =
        (let w2 = w\<lparr>stdin := tl (tl (stdin w)),
                     trace := trace w @ [rd_event RdEof, rd_event (next_rd (tl (stdin w)))]\<rparr>
         in if response = CHR ''y'' \<or> response = CHR ''Y''
            then Break (w2\<lparr>trace := trace w2 @ [wrote STDOUT_FILENO msg_proceed]\<rparr>)
            else if response = CHR ''n'' \<or> response = CHR ''N''
            then Return 0 (w2\<lparr>trace := trace w2 @ [wrote STDOUT_FILENO msg_cancel]\<rparr>)
            else Continue (response,
                   w2\<lparr>trace := trace w2 @ [wrote STDOUT_FILENO msg_invalid]\<rparr>))) \<and>
   (length argv = 3 \<and> files w (argv ! 2) \<noteq> None \<and> stdin w = [] \<and> \<not> valid_answer response
      \<longrightarrow> main argv response w = None)"
proof (intro conjI impI)
  assume "next_rd (stdin w) = RdEof"
  then show "confirm_body response w =
        (let w2 = w\<lparr>stdin := tl (tl (stdin w)),
                     trace := trace w @ [rd_event RdEof, rd_event (next_rd (tl (stdin w)))]\<rparr>
         in if response = CHR ''y'' \<or> response = CHR ''Y''
            then Break (w2\<lparr>trace := trace w2 @ [wrote STDOUT_FILENO msg_proceed]\<rparr>)
            else if response = CHR ''n'' \<or> response = CHR ''N''
            then Return 0 (w2\<lparr>trace := trace w2 @ [wrote STDOUT_FILENO msg_cancel]\<rparr>)
            else Continue (response,
                   w2\<lparr>trace := trace w2 @ [wrote STDOUT_FILENO msg_invalid]\<rparr>))"
    by (simp add: confirm_body_eq Let_def)
next
  assume a: "length argv = 3 \<and> files w (argv ! 2) \<noteq> None \<and> stdin w = [] \<and>
             \<not> valid_answer response"
  let ?w1 = "w\<lparr>trace := trace w @
               [EvAccess (argv ! 2) 0, wrote STDOUT_FILENO prompt1,
                wrote STDOUT_FILENO (take (string_length (argv ! 2)) (argv ! 2)),
                wrote STDOUT_FILENO prompt2]\<rparr>"
  from a have "confirm_loop response ?w1 = None"
    by (intro confirm_loop_eof_None) simp_all
  with a show "main argv response w = None"
    by (auto simp add: main_def confirm_overwrite_def sys_access_eq Let_def)
qed

theorem eof_is_not_an_error_witness:
  "confirm_body (CHR ''q'') world0 =
     Continue (CHR ''q'',
       world0\<lparr>trace := [EvRead 0 1 [] 0, EvRead 0 1 [] 0, EvWrite 1 msg_invalid 40]\<rparr>) \<and>
   main [''./my_copy'', ''b'', ''a''] (CHR ''q'') world0 = None"
  using eof_is_not_an_error [of world0 "CHR ''q''" "[''./my_copy'', ''b'', ''a'']"]
  by (simp add: world0_def valid_answer_def wrote_def rd_event_def next_rd_def
      STDOUT_FILENO_def STDIN_FILENO_def msg_invalid_def)

end
